theory Spec2Isabelle
  imports Main "HOL-Library.Word"
begin

section \<open>The Ogg Opus audio stream of audio/decoders/opus.cpp\<close>

text \<open>
  The file wraps the opusfile library: four callbacks hand a seekable byte stream to the
  library, \<open>opusError\<close> names its status codes, and the class \<open>OpusStream\<close> serves
  interleaved 16-bit samples from a buffer of \<open>120*48*2\<close> values that \<open>_fillBuffer\<close>
  refills through \<open>op_read\<close>.

  The library and the byte stream are not part of the file. They are parameters of the
  model: a record of the library's entry points over an abstract handle state \<open>'c\<close>, and
  a record of the stream's operations over an abstract stream state \<open>'s\<close>. Every entry
  point returns the state it leaves behind, so a call that is issued shows in the state.
\<close>

subsection \<open>C integers\<close>

text \<open>
  Integers are \<open>int\<close> and \<open>nat\<close> with the conversions of the 32-bit types written out:
  \<open>to_uint32\<close> is the conversion to \<open>uint\<close> (reduction modulo \<open>2^32\<close>), \<open>to_int32\<close>
  the conversion to \<open>int\<close> (two's complement), \<open>c_div\<close> the division of C, which
  truncates towards zero.
\<close>

type_synonym int16 = "16 word"
type_synonym byte = "8 word"

definition to_uint32 :: "int \<Rightarrow> nat" where
  "to_uint32 x = nat (x mod 2 ^ 32)"

definition to_int32 :: "int \<Rightarrow> int" where
  "to_int32 x = (x + 2 ^ 31) mod 2 ^ 32 - 2 ^ 31"

definition c_div :: "int \<Rightarrow> int \<Rightarrow> int" where
  "c_div a b = sgn a * sgn b * (\<bar>a\<bar> div \<bar>b\<bar>)"

subsection \<open>The byte stream and the callbacks\<close>

text \<open>
  \<open>Common::SeekableReadStream\<close> is declared outside the file; its three operations are
  taken as parameters. \<open>stream_read st n\<close> is \<open>stream->read(ptr, n)\<close>: the \<open>uint32\<close>
  it returns, the bytes it stored at \<open>ptr\<close> and the stream afterwards.
  \<open>stream_seek st offset whence\<close> is \<open>stream->seek(offset, whence)\<close> and
  \<open>stream_pos st\<close> is \<open>stream->pos()\<close>.
\<close>

record 's SeekableReadStream =
  stream_read :: "'s \<Rightarrow> nat \<Rightarrow> nat \<times> byte list \<times> 's"
  stream_seek :: "'s \<Rightarrow> int \<Rightarrow> int \<Rightarrow> bool \<times> 's"
  stream_pos :: "'s \<Rightarrow> int"

text \<open>
  \<open>read_stream_callback\<close>: the \<open>int\<close> byte count becomes the \<open>uint32\<close> argument of
  \<open>read\<close>, and the \<open>uint32\<close> result is returned as \<open>int\<close>.
\<close>

definition read_stream_callback ::
  "'s SeekableReadStream \<Rightarrow> 's \<Rightarrow> int \<Rightarrow> int \<times> byte list \<times> 's" where
  "read_stream_callback io st nbytes =
     (case stream_read io st (to_uint32 nbytes) of
        (result, bytes, st') \<Rightarrow> (to_int32 (int result), bytes, st'))"

text \<open>\<open>seek_stream_callback\<close>: the 64-bit offset is cast to \<open>int32\<close> before the seek.\<close>

definition seek_stream_callback ::
  "'s SeekableReadStream \<Rightarrow> 's \<Rightarrow> int \<Rightarrow> int \<Rightarrow> int \<times> 's" where
  "seek_stream_callback io st offset whence =
     (case stream_seek io st (to_int32 offset) whence of
        (ok, st') \<Rightarrow> (if ok then 0 else - 1, st'))"

definition tell_stream_callback :: "'s SeekableReadStream \<Rightarrow> 's \<Rightarrow> int" where
  "tell_stream_callback io st = stream_pos io st"

text \<open>\<open>close_stream_callback\<close> does nothing and returns 0.\<close>

definition close_stream_callback :: "'s SeekableReadStream \<Rightarrow> 's \<Rightarrow> int \<times> 's" where
  "close_stream_callback io st = (0, st)"

record 's OpusFileCallbacks =
  cb_read :: "'s \<Rightarrow> int \<Rightarrow> int \<times> byte list \<times> 's"
  cb_seek :: "'s \<Rightarrow> int \<Rightarrow> int \<Rightarrow> int \<times> 's"
  cb_tell :: "'s \<Rightarrow> int"
  cb_close :: "'s \<Rightarrow> int \<times> 's"

definition g_stream_callbacks :: "'s SeekableReadStream \<Rightarrow> 's OpusFileCallbacks" where
  "g_stream_callbacks io =
     \<lparr>cb_read = read_stream_callback io,
      cb_seek = seek_stream_callback io,
      cb_tell = tell_stream_callback io,
      cb_close = close_stream_callback io\<rparr>"

subsection \<open>The opusfile library\<close>

text \<open>
  The status codes are macros of \<open>opusfile.h\<close>; the model takes them as a record of
  integers. \<open>opusfile_codes\<close> holds the values the header of opusfile gives them.
\<close>

record opus_codes =
  OP_FALSE :: int
  OP_HOLE :: int
  OP_EREAD :: int
  OP_EFAULT :: int
  OP_EIMPL :: int
  OP_EINVAL :: int
  OP_ENOTFORMAT :: int
  OP_EBADHEADER :: int
  OP_EVERSION :: int
  OP_ENOTAUDIO :: int
  OP_EBADPACKET :: int
  OP_EBADLINK :: int
  OP_ENOSEEK :: int
  OP_EBADTIMESTAMP :: int

definition opusfile_codes :: opus_codes where
  "opusfile_codes =
     \<lparr>OP_FALSE = - 1, OP_HOLE = - 3, OP_EREAD = - 128, OP_EFAULT = - 129,
      OP_EIMPL = - 130, OP_EINVAL = - 131, OP_ENOTFORMAT = - 132, OP_EBADHEADER = - 133,
      OP_EVERSION = - 134, OP_ENOTAUDIO = - 135, OP_EBADPACKET = - 136,
      OP_EBADLINK = - 137, OP_ENOSEEK = - 138, OP_EBADTIMESTAMP = - 139\<rparr>"

text \<open>The labels of a C \<open>switch\<close> are pairwise distinct.\<close>

definition codes_list :: "opus_codes \<Rightarrow> int list" where
  "codes_list c =
     [OP_FALSE c, OP_HOLE c, OP_EREAD c, OP_EFAULT c, OP_EIMPL c, OP_EINVAL c,
      OP_ENOTFORMAT c, OP_EBADHEADER c, OP_EVERSION c, OP_ENOTAUDIO c, OP_EBADPACKET c,
      OP_EBADLINK c, OP_ENOSEEK c, OP_EBADTIMESTAMP c]"

text \<open>\<open>opusError\<close>: the \<open>switch\<close>, case by case in the order of the source.\<close>

definition opusError :: "opus_codes \<Rightarrow> int \<Rightarrow> string" where
  "opusError c errnum =
     (if errnum = OP_FALSE c then ''Request did not succeed''
      else if errnum = OP_HOLE c then
        ''There was a hole in the data and some samples may have been skipped''
      else if errnum = OP_EREAD c then
        ''An underlying read, seek, or tell operation failed''
      else if errnum = OP_EFAULT c then ''Internal memory allocation or library error''
      else if errnum = OP_EIMPL c then ''Unimplemented feature used in stream''
      else if errnum = OP_EINVAL c then
        ''One or more parameters to a function were invalid''
      else if errnum = OP_ENOTFORMAT c then ''Invalid Ogg Opus stream''
      else if errnum = OP_EBADHEADER c then ''Invalid Ogg Opus stream''
      else if errnum = OP_EVERSION c then ''Unrecognized version number in header''
      else if errnum = OP_ENOTAUDIO c then ''Unknown error''
      else if errnum = OP_EBADPACKET c then ''Failed to decode audio packet''
      else if errnum = OP_EBADLINK c then ''Seeking error''
      else if errnum = OP_ENOSEEK c then ''Non-seekable stream''
      else if errnum = OP_EBADTIMESTAMP c then
        ''Validity checks failed for first or last timestamp in a link''
      else ''Unknown error'')"

text \<open>
  The entry points the file calls. \<open>op_open_callbacks st cb\<close> returns the status it
  stores in \<open>result\<close> and the handle. \<open>op_read f n\<close> is
  \<open>op_read(_file, ptr, n, NULL)\<close>: the returned \<open>int\<close>, the values it stored from
  \<open>ptr\<close> on, and the handle afterwards. \<open>op_pcm_seek f i\<close> returns status and handle.
\<close>

record ('s, 'c) opusfile =
  codes :: opus_codes
  op_open_callbacks :: "'s \<Rightarrow> 's OpusFileCallbacks \<Rightarrow> int \<times> 'c"
  op_channel_count :: "'c \<Rightarrow> int"
  op_pcm_total :: "'c \<Rightarrow> int"
  op_read :: "'c \<Rightarrow> int \<Rightarrow> int \<times> int16 list \<times> 'c"
  op_pcm_seek :: "'c \<Rightarrow> int \<Rightarrow> int \<times> 'c"

subsection \<open>The class OpusStream\<close>

text \<open>
  Modelled from the spec: \<open>Audio::Timestamp\<close> is declared outside the file. A position
  or duration is the pair of a time value in milliseconds and a reference rate, the two
  arguments of the constructor \<open>Timestamp(ms, fr)\<close>.
\<close>

record Timestamp =
  msecs :: nat
  framerate :: nat

text \<open>
  The members of the class. \<open>_bufferEnd\<close> and \<open>_pos\<close> point into \<open>_buffer\<close>; the model
  keeps their offsets from the start of the array, counted in values. The offset of a
  pointer \<open>_buffer + n\<close> with \<open>n\<close> a \<open>uint\<close> is \<open>n\<close> (an address space of 64 bits).
  \<open>console\<close> is the text that \<open>warning\<close> has printed.
\<close>

record 'c OpusStream =
  channels :: nat
  rate :: int
  length_ts :: Timestamp
  opfile :: 'c
  buffer :: "int16 list"
  bufferEnd :: nat
  pos :: nat
  console :: "string list"

definition bufferSize :: nat where
  "bufferSize = 120 * 48 * 2"

definition warning :: "string \<Rightarrow> 'c OpusStream \<Rightarrow> 'c OpusStream" where
  "warning msg s = s\<lparr>console := console s @ [msg]\<rparr>"

definition endOfData :: "'c OpusStream \<Rightarrow> bool" where
  "endOfData s = (bufferEnd s \<le> pos s)"

definition isStereo :: "'c OpusStream \<Rightarrow> bool" where
  "isStereo s = (2 \<le> channels s)"

definition getRate :: "'c OpusStream \<Rightarrow> int" where
  "getRate s = rate s"

definition getLength :: "'c OpusStream \<Rightarrow> Timestamp" where
  "getLength s = length_ts s"

text \<open>
  \<open>write_at buf off vs\<close> stores \<open>vs\<close> in the array from offset \<open>off\<close> on. The library
  writes at most the \<open>buf_size\<close> values it was given room for; what a library breaking
  that promise would store behind the array is not kept.
\<close>

definition write_at :: "'a list \<Rightarrow> nat \<Rightarrow> 'a list \<Rightarrow> 'a list" where
  "write_at buf off vs =
     take off buf @ take (length buf - off) vs @ drop (off + length vs) buf"

text \<open>
  The loop of \<open>_fillBuffer\<close>, with \<open>samplesRead\<close> as its argument, and the two
  assignments behind the loop. \<open>samplesRead\<close> is a \<open>uint\<close>: the sum
  \<open>samplesRead += result * _channels\<close> is taken modulo \<open>2^32\<close>. After the warning for
  a negative \<open>result\<close> only a code other than \<open>OP_HOLE\<close> returns; \<open>OP_HOLE\<close> goes on
  to the test \<open>result == 0\<close> and to the sum. A codec that never stops answering lets the
  loop run forever: the result is \<open>None\<close> then.
\<close>

partial_function (option) fillLoop ::
  "('s, 'c) opusfile \<Rightarrow> 'c OpusStream \<Rightarrow> nat \<Rightarrow> (bool \<times> 'c OpusStream) option" where
  "fillLoop lib s samplesRead =
     (if samplesRead < bufferSize then
        (case op_read lib (opfile s) (int (bufferSize - samplesRead)) of
           (result, vs, f') \<Rightarrow>
             let s1 = s\<lparr>opfile := f', buffer := write_at (buffer s) samplesRead vs\<rparr>;
                 s2 = (if result < 0
                       then warning (''Error reading from Opus stream: '' @
                                     opusError (codes lib) result) s1
                       else s1)
             in if result < 0 \<and> result \<noteq> OP_HOLE (codes lib)
                then Some (False, s2\<lparr>pos := bufferEnd s2\<rparr>)
                else if result = 0
                then Some (True, s2\<lparr>pos := 0, bufferEnd := samplesRead\<rparr>)
                else fillLoop lib s2
                       (to_uint32 (int samplesRead + result * int (channels s2))))
      else Some (True, s\<lparr>pos := 0, bufferEnd := samplesRead\<rparr>))"

definition fillBuffer ::
  "('s, 'c) opusfile \<Rightarrow> 'c OpusStream \<Rightarrow> (bool \<times> 'c OpusStream) option" where
  "fillBuffer lib s = fillLoop lib s 0"

text \<open>
  \<open>readBuffer\<close>. The destination is the list of values copied so far. \<open>memcpy\<close> reads
  \<open>len\<close> values from offset \<open>_pos\<close>; a negative \<open>len\<close> (a huge \<open>size_t\<close>) or a range
  that leaves the array is a memory fault.
\<close>

datatype fault = MemFault

partial_function (option) readLoop ::
  "('s, 'c) opusfile \<Rightarrow> 'c OpusStream \<Rightarrow> int \<Rightarrow> int \<Rightarrow> int16 list \<Rightarrow>
   (fault + int \<times> int16 list \<times> 'c OpusStream) option" where
  "readLoop lib s numSamples samples dst =
     (if samples < numSamples \<and> pos s < bufferEnd s then
        let len = min (numSamples - samples) (to_int32 (int (bufferEnd s) - int (pos s)))
        in if len < 0 \<or> length (buffer s) < pos s + nat len then Some (Inl MemFault)
           else
             let dst1 = dst @ take (nat len) (drop (pos s) (buffer s));
                 s1 = s\<lparr>pos := pos s + nat len\<rparr>;
                 samples1 = samples + len
             in if bufferEnd s1 \<le> pos s1 then
                  (case fillBuffer lib s1 of
                     None \<Rightarrow> None
                   | Some (ok, s2) \<Rightarrow>
                       if \<not> ok then Some (Inr (samples1, dst1, s2))
                       else readLoop lib s2 numSamples samples1 dst1)
                else readLoop lib s1 numSamples samples1 dst1
      else Some (Inr (samples, dst, s)))"

definition readBuffer ::
  "('s, 'c) opusfile \<Rightarrow> 'c OpusStream \<Rightarrow> int \<Rightarrow>
   (fault + int \<times> int16 list \<times> 'c OpusStream) option" where
  "readBuffer lib s numSamples = readLoop lib s numSamples 0 []"

text \<open>
  \<open>seek\<close>. \<open>convertTimeToStreamPos(where, rate, false).totalNumberOfFrames()\<close> is
  computed outside the file; \<open>conv\<close> stands for it.
\<close>

definition seek ::
  "('s, 'c) opusfile \<Rightarrow> (Timestamp \<Rightarrow> int \<Rightarrow> int) \<Rightarrow> 'c OpusStream \<Rightarrow> Timestamp \<Rightarrow>
   (bool \<times> 'c OpusStream) option" where
  "seek lib conv s wh =
     (case op_pcm_seek lib (opfile s) (conv wh (getRate s)) of
        (result, f') \<Rightarrow>
          let s1 = s\<lparr>opfile := f'\<rparr> in
          if result < 0 then
            let s2 = warning (''Error seeking in Opus stream: '' @
                              opusError (codes lib) result) s1
            in Some (False, s2\<lparr>pos := bufferEnd s2\<rparr>)
          else fillBuffer lib s1)"

text \<open>
  The constructor. \<open>raw\<close> is the object before construction: it gives the members that
  the constructor has not assigned yet (\<open>_channels\<close>, \<open>_rate\<close>, \<open>_buffer\<close>, \<open>_pos\<close>)
  and the console so far. The initialiser list sets \<open>_length\<close> and \<open>_bufferEnd\<close>.
\<close>

definition OpusStream_new ::
  "('s, 'c) opusfile \<Rightarrow> 's SeekableReadStream \<Rightarrow> 'c OpusStream \<Rightarrow> 's \<Rightarrow>
   'c OpusStream option" where
  "OpusStream_new lib io raw inStream =
     (case op_open_callbacks lib inStream (g_stream_callbacks io) of
        (result, f) \<Rightarrow>
          let s0 = raw\<lparr>length_ts := \<lparr>msecs = 0, framerate = 1000\<rparr>,
                       bufferEnd := bufferSize, opfile := f\<rparr>
          in if result < 0 then
               let s1 = warning (''Could not create Opus stream: '' @
                                 opusError (codes lib) result) s0
               in Some (s1\<lparr>pos := bufferEnd s1\<rparr>)
             else
               let s1 = s0\<lparr>channels := nat (op_channel_count lib f mod 256),
                           rate := 48000\<rparr>
               in (case fillBuffer lib s1 of
                     None \<Rightarrow> None
                   | Some (ok, s2) \<Rightarrow>
                       if \<not> ok then Some s2
                       else
                         let pcmLength = op_pcm_total lib (opfile s2);
                             s3 = (if pcmLength < 0
                                   then warning
                                          (''Could not determine length of Opus stream: '' @
                                           opusError (codes lib) (to_int32 pcmLength)) s2
                                   else s2)
                         in Some (s3\<lparr>length_ts :=
                                    \<lparr>msecs = to_uint32 (c_div pcmLength (rate s3) * 1000),
                                     framerate = to_uint32 (rate s3)\<rparr>\<rparr>)))"

text \<open>
  \<open>makeOpusStream\<close>: \<open>Some None\<close> is the null pointer, \<open>Some (Some s)\<close> the stream,
  \<open>None\<close> a constructor that does not return.
\<close>

definition makeOpusStream ::
  "('s, 'c) opusfile \<Rightarrow> 's SeekableReadStream \<Rightarrow> 'c OpusStream \<Rightarrow> 's \<Rightarrow>
   'c OpusStream option option" where
  "makeOpusStream lib io raw stream =
     (case OpusStream_new lib io raw stream of
        None \<Rightarrow> None
      | Some s \<Rightarrow> if endOfData s then Some None else Some (Some s))"

text \<open>
  Two stages of the constructor, named for the statements below: \<open>opened\<close> is the
  object after a successful \<open>op_open_callbacks\<close>, before the first refill;
  \<open>measured\<close> is the end of the constructor, from \<open>op_pcm_total\<close> on.
\<close>

definition opened :: "('s, 'c) opusfile \<Rightarrow> 'c OpusStream \<Rightarrow> 'c \<Rightarrow> 'c OpusStream" where
  "opened lib raw f =
     raw\<lparr>length_ts := \<lparr>msecs = 0, framerate = 1000\<rparr>, bufferEnd := bufferSize, opfile := f,
         channels := nat (op_channel_count lib f mod 256), rate := 48000\<rparr>"

definition measured :: "('s, 'c) opusfile \<Rightarrow> 'c OpusStream \<Rightarrow> 'c OpusStream" where
  "measured lib s =
     (let pcmLength = op_pcm_total lib (opfile s);
          s3 = (if pcmLength < 0
                then warning (''Could not determine length of Opus stream: '' @
                              opusError (codes lib) (to_int32 pcmLength)) s
                else s)
      in s3\<lparr>length_ts := \<lparr>msecs = to_uint32 (c_div pcmLength (rate s3) * 1000),
                          framerate = to_uint32 (rate s3)\<rparr>\<rparr>)"

subsection \<open>Callers\<close>

text \<open>
  The mixer calls \<open>readBuffer\<close> and \<open>seek\<close> one after the other on the same object.
  \<open>calls\<close> runs a list of such calls and collects what each returns; it stops at a
  memory fault and is \<open>None\<close> when a call does not return.
\<close>

datatype call = Read int | SeekTo Timestamp

datatype reply = Samples int "int16 list" | Sought bool

fun calls ::
  "('s, 'c) opusfile \<Rightarrow> (Timestamp \<Rightarrow> int \<Rightarrow> int) \<Rightarrow> 'c OpusStream \<Rightarrow> call list \<Rightarrow>
   (fault + reply list \<times> 'c OpusStream) option" where
  "calls lib conv s [] = Some (Inr ([], s))"
| "calls lib conv s (Read n # cs) =
     (case readBuffer lib s n of
        None \<Rightarrow> None
      | Some (Inl e) \<Rightarrow> Some (Inl e)
      | Some (Inr (cnt, dst, s')) \<Rightarrow>
          (case calls lib conv s' cs of
             None \<Rightarrow> None
           | Some (Inl e) \<Rightarrow> Some (Inl e)
           | Some (Inr (rs, s'')) \<Rightarrow> Some (Inr (Samples cnt dst # rs, s''))))"
| "calls lib conv s (SeekTo wh # cs) =
     (case seek lib conv s wh of
        None \<Rightarrow> None
      | Some (ok, s') \<Rightarrow>
          (case calls lib conv s' cs of
             None \<Rightarrow> None
           | Some (Inl e) \<Rightarrow> Some (Inl e)
           | Some (Inr (rs, s'')) \<Rightarrow> Some (Inr (Sought ok # rs, s''))))"

text \<open>The samples that a list of replies delivered, and their number as returned.\<close>

fun delivered :: "reply list \<Rightarrow> int16 list" where
  "delivered [] = []"
| "delivered (Samples cnt dst # rs) = dst @ delivered rs"
| "delivered (Sought ok # rs) = delivered rs"

fun returned :: "reply list \<Rightarrow> int" where
  "returned [] = 0"
| "returned (Samples cnt dst # rs) = cnt + returned rs"
| "returned (Sought ok # rs) = returned rs"

text \<open>
  A reply answers a request for \<open>n\<close> samples within bounds when it is a sample count
  between 0 and \<open>n\<close> together with exactly that many copied values.
\<close>

definition within :: "int \<Rightarrow> reply \<Rightarrow> bool" where
  "within n r = (case r of Samples cnt dst \<Rightarrow> 0 \<le> cnt \<and> cnt \<le> n \<and> int (length dst) = cnt
                 | Sought ok \<Rightarrow> False)"

subsection \<open>Streams without errors\<close>

text \<open>
  What the library promises for a stream that decodes without error or hole, seen from
  the file: the handle \<open>f\<close> still has the interleaved samples \<open>left f\<close> to give, and a
  call of \<open>op_read\<close> with room for at least one sample per channel hands out a prefix
  of them, whole samples per channel only, at most as many values as there is room for,
  and returns 0 exactly when nothing is left.
\<close>

definition pcm_codec :: "('s, 'c) opusfile \<Rightarrow> nat \<Rightarrow> ('c \<Rightarrow> int16 list) \<Rightarrow> bool" where
  "pcm_codec lib ch left \<longleftrightarrow>
     0 < ch \<and>
     (\<forall>f n. int ch \<le> n \<longrightarrow>
        (case op_read lib f n of
           (result, vs, f') \<Rightarrow>
             0 \<le> result \<and> result * int ch \<le> n \<and>
             nat result * ch \<le> length (left f) \<and>
             vs = take (nat result * ch) (left f) \<and>
             left f' = drop (nat result * ch) (left f) \<and>
             (result = 0 \<longleftrightarrow> left f = [])))"

text \<open>
  The state of an object between two calls: both offsets are inside the array and the
  channel count divides its size. It is \<open>valid\<close> when, moreover, an exhausted buffer
  means an exhausted stream.
\<close>

definition wellformed :: "'c OpusStream \<Rightarrow> bool" where
  "wellformed s \<longleftrightarrow>
     length (buffer s) = bufferSize \<and> pos s \<le> bufferEnd s \<and> bufferEnd s \<le> bufferSize \<and>
     channels s dvd bufferSize"

definition valid :: "('c \<Rightarrow> int16 list) \<Rightarrow> 'c OpusStream \<Rightarrow> bool" where
  "valid left s \<longleftrightarrow>
     wellformed s \<and> (pos s = bufferEnd s \<longrightarrow> left (opfile s) = [])"

text \<open>The samples still to come: the rest of the buffer, then the rest of the stream.\<close>

definition pending :: "('c \<Rightarrow> int16 list) \<Rightarrow> 'c OpusStream \<Rightarrow> int16 list" where
  "pending left s =
     take (bufferEnd s - pos s) (drop (pos s) (buffer s)) @ left (opfile s)"

subsection \<open>Example: stereo samples held in memory\<close>

text \<open>
  A library instance for examples: the source is a list of stereo frames, the handle is
  that list with a cursor, \<open>op_read\<close> hands out as many whole frames as fit, and
  \<open>op_pcm_seek\<close> moves the cursor. An empty source is not a stream.
\<close>

record stereo_file =
  frames :: "(int16 \<times> int16) list"
  cursor :: nat

fun interleave :: "(int16 \<times> int16) list \<Rightarrow> int16 list" where
  "interleave [] = []"
| "interleave ((l, r) # fs) = l # r # interleave fs"

definition stereo_left :: "stereo_file \<Rightarrow> int16 list" where
  "stereo_left f = interleave (drop (cursor f) (frames f))"

definition stereo_read :: "stereo_file \<Rightarrow> int \<Rightarrow> int \<times> int16 list \<times> stereo_file" where
  "stereo_read f n =
     (let k = min (nat n div 2) (length (frames f) - cursor f)
      in (int k, interleave (take k (drop (cursor f) (frames f))),
          f\<lparr>cursor := cursor f + k\<rparr>))"

definition stereo_seek :: "stereo_file \<Rightarrow> int \<Rightarrow> int \<times> stereo_file" where
  "stereo_seek f i =
     (if 0 \<le> i \<and> i \<le> int (length (frames f)) then (0, f\<lparr>cursor := nat i\<rparr>)
      else (OP_EINVAL opusfile_codes, f))"

definition stereo_lib :: "((int16 \<times> int16) list, stereo_file) opusfile" where
  "stereo_lib =
     \<lparr>codes = opusfile_codes,
      op_open_callbacks =
        (\<lambda>st cb. if st = [] then (OP_ENOTFORMAT opusfile_codes, \<lparr>frames = [], cursor = 0\<rparr>)
                  else (0, \<lparr>frames = st, cursor = 0\<rparr>)),
      op_channel_count = (\<lambda>f. 2),
      op_pcm_total = (\<lambda>f. int (length (frames f))),
      op_read = stereo_read,
      op_pcm_seek = stereo_seek\<rparr>"

text \<open>
  The same library for a damaged source: the source carries the status codes that the
  first calls of \<open>op_read\<close> report, one per call, before the frames are handed out.
\<close>

definition damaged_lib ::
  "(int list \<times> (int16 \<times> int16) list, int list \<times> stereo_file) opusfile" where
  "damaged_lib =
     \<lparr>codes = opusfile_codes,
      op_open_callbacks =
        (\<lambda>(es, st) cb.
           if st = [] then (OP_ENOTFORMAT opusfile_codes, ([], \<lparr>frames = [], cursor = 0\<rparr>))
           else (0, (es, \<lparr>frames = st, cursor = 0\<rparr>))),
      op_channel_count = (\<lambda>(es, f). 2),
      op_pcm_total = (\<lambda>(es, f). int (length (frames f))),
      op_read =
        (\<lambda>(es, f) n.
           case es of
             e # es' \<Rightarrow> (e, [], (es', f))
           | [] \<Rightarrow> (case stereo_read f n of (r, vs, f') \<Rightarrow> (r, vs, ([], f')))),
      op_pcm_seek = (\<lambda>(es, f) i. case stereo_seek f i of (r, f') \<Rightarrow> (r, (es, f')))\<rparr>"

text \<open>A source that is read by nobody but the library: its stream operations are idle.\<close>

definition idle_io :: "'s SeekableReadStream" where
  "idle_io =
     \<lparr>stream_read = (\<lambda>st n. (0, [], st)),
      stream_seek = (\<lambda>st off whence. (False, st)),
      stream_pos = (\<lambda>st. 0)\<rparr>"

text \<open>A byte stream over a byte list with a read position, for the callbacks.\<close>

definition mem_io :: "(byte list \<times> nat) SeekableReadStream" where
  "mem_io =
     \<lparr>stream_read =
        (\<lambda>(bs, p) n. let k = min n (length bs - p)
                      in (k, take k (drop p bs), (bs, p + k))),
      stream_seek =
        (\<lambda>(bs, p) off whence.
           let q = (if whence = 0 then off
                    else if whence = 1 then int p + off
                    else int (length bs) + off)
           in if 0 \<le> q \<and> q \<le> int (length bs) then (True, (bs, nat q))
              else (False, (bs, p))),
      stream_pos = (\<lambda>(bs, p). int p)\<rparr>"

text \<open>An object before construction, and a conversion of milliseconds to frames.\<close>

definition raw0 :: "'c \<Rightarrow> 'c OpusStream" where
  "raw0 f =
     \<lparr>channels = 0, rate = 0, length_ts = \<lparr>msecs = 0, framerate = 1\<rparr>, opfile = f,
      buffer = replicate bufferSize 0, bufferEnd = 0, pos = 0, console = []\<rparr>"

definition ms_frames :: "Timestamp \<Rightarrow> int \<Rightarrow> int" where
  "ms_frames wh r = int (msecs wh) * r div 1000"

text \<open>
  The object that the constructor builds from the stereo source of the two frames
  \<open>(1, 2)\<close> and \<open>(3, 4)\<close>, and two positions to seek to.
\<close>

definition demo_file :: stereo_file where
  "demo_file = \<lparr>frames = [(1, 2), (3, 4)], cursor = 2\<rparr>"

definition demo_stream :: "stereo_file OpusStream" where
  "demo_stream =
     \<lparr>channels = 2, rate = 48000, length_ts = \<lparr>msecs = 0, framerate = 48000\<rparr>,
      opfile = demo_file, buffer = write_at (replicate bufferSize 0) 0 [1, 2, 3, 4],
      bufferEnd = 4, pos = 0, console = []\<rparr>"

definition at_start :: Timestamp where
  "at_start = \<lparr>msecs = 0, framerate = 1000\<rparr>"

definition one_second :: Timestamp where
  "one_second = \<lparr>msecs = 1000, framerate = 1000\<rparr>"

section \<open>Properties\<close>

subsection \<open>What a refill leaves alone\<close>

text \<open>
  Whenever \<open>_fillBuffer\<close> returns, the channel count, the rate, the duration and the
  size of the array are as before; after success the cursor is at the start of the
  array, after failure it is at \<open>_bufferEnd\<close>.
\<close>

lemma length_write_at [simp]: "length (write_at buf off vs) = length buf"
  by (auto simp: write_at_def min_def)

lemma warning_simps [simp]:
  "channels (warning m s) = channels s" "rate (warning m s) = rate s"
  "length_ts (warning m s) = length_ts s" "opfile (warning m s) = opfile s"
  "buffer (warning m s) = buffer s" "bufferEnd (warning m s) = bufferEnd s"
  "pos (warning m s) = pos s" "console (warning m s) = console s @ [m]"
  by (simp_all add: warning_def)

lemma fillLoop_frame:
  assumes "fillLoop lib s sr = Some y"
  shows "channels (snd y) = channels s \<and> rate (snd y) = rate s \<and>
   length_ts (snd y) = length_ts s \<and> length (buffer (snd y)) = length (buffer s) \<and>
   (if fst y then pos (snd y) = 0 else pos (snd y) = bufferEnd (snd y))"
  using assms
proof (induction lib s sr y rule: fillLoop.raw_induct[rotated 1, consumes 1])
  case (1 fl lib s sr y)
  obtain result vs f' where rd: "op_read lib (opfile s) (int (bufferSize - sr)) = (result, vs, f')"
    by (cases "op_read lib (opfile s) (int (bufferSize - sr))") auto
  show ?case
  proof (cases "sr < bufferSize")
    case False
    with 1(2) show ?thesis by auto
  next
    case True
    show ?thesis
    proof (cases "result < 0 \<and> result \<noteq> OP_HOLE (codes lib)")
      case True
      with 1(2) \<open>sr < bufferSize\<close> rd show ?thesis
        by (auto simp: Let_def warning_def)
    next
      case False
      note nf = this
      show ?thesis
      proof (cases "result = 0")
        case True
        with 1(2) \<open>sr < bufferSize\<close> rd show ?thesis
          by (auto simp: Let_def warning_def)
      next
        case False
        define s2 where "s2 = (if result < 0
            then warning (''Error reading from Opus stream: '' @ opusError (codes lib) result)
                   (s\<lparr>opfile := f', buffer := write_at (buffer s) sr vs\<rparr>)
            else s\<lparr>opfile := f', buffer := write_at (buffer s) sr vs\<rparr>)"
        from 1(2) \<open>sr < bufferSize\<close> rd nf False
        have "fl lib s2 (to_uint32 (int sr + result * int (channels s2))) = Some y"
          by (simp add: Let_def s2_def split: if_splits)
        from 1(1)[OF this]
        have ih: "channels (snd y) = channels s2" "rate (snd y) = rate s2"
          "length_ts (snd y) = length_ts s2" "length (buffer (snd y)) = length (buffer s2)"
          "if fst y then pos (snd y) = 0 else pos (snd y) = bufferEnd (snd y)"
          by simp_all
        have "channels s2 = channels s" "rate s2 = rate s" "length_ts s2 = length_ts s"
          "length (buffer s2) = length (buffer s)"
          by (simp_all add: s2_def)
        with ih show ?thesis by simp
      qed
    qed
  qed
qed

lemma fillBuffer_frame:
  "fillBuffer lib s = Some (ok, s') \<Longrightarrow>
   channels s' = channels s \<and> rate s' = rate s \<and> length_ts s' = length_ts s \<and>
   length (buffer s') = length (buffer s) \<and>
   (if ok then pos s' = 0 else pos s' = bufferEnd s')"
  unfolding fillBuffer_def by (drule fillLoop_frame) (auto split: if_splits)

subsection \<open>Conversions\<close>

lemma to_int32_id: "- (2 ^ 31) \<le> x \<Longrightarrow> x < 2 ^ 31 \<Longrightarrow> to_int32 x = x"
  by (simp add: to_int32_def)

lemma to_uint32_id: "0 \<le> x \<Longrightarrow> x < 2 ^ 32 \<Longrightarrow> to_uint32 x = nat x"
  by (simp add: to_uint32_def)

subsection \<open>The error translator\<close>

text \<open>
  C8. \<open>opusError\<close> is a function of the status code alone. With the labels of the
  switch pairwise distinct, each of the fourteen listed codes has its fixed string
  (\<open>OP_ENOTFORMAT\<close> and \<open>OP_EBADHEADER\<close> share one, \<open>OP_ENOTAUDIO\<close> has the text
  of the default), and every other code has the string \<open>Unknown error\<close>.
\<close>

theorem opusError_table:
  assumes "distinct (codes_list c)"
  shows "opusError c (OP_FALSE c) = ''Request did not succeed'' \<and>
     opusError c (OP_HOLE c) =
       ''There was a hole in the data and some samples may have been skipped'' \<and>
     opusError c (OP_EREAD c) = ''An underlying read, seek, or tell operation failed'' \<and>
     opusError c (OP_EFAULT c) = ''Internal memory allocation or library error'' \<and>
     opusError c (OP_EIMPL c) = ''Unimplemented feature used in stream'' \<and>
     opusError c (OP_EINVAL c) = ''One or more parameters to a function were invalid'' \<and>
     opusError c (OP_ENOTFORMAT c) = ''Invalid Ogg Opus stream'' \<and>
     opusError c (OP_EBADHEADER c) = ''Invalid Ogg Opus stream'' \<and>
     opusError c (OP_EVERSION c) = ''Unrecognized version number in header'' \<and>
     opusError c (OP_ENOTAUDIO c) = ''Unknown error'' \<and>
     opusError c (OP_EBADPACKET c) = ''Failed to decode audio packet'' \<and>
     opusError c (OP_EBADLINK c) = ''Seeking error'' \<and>
     opusError c (OP_ENOSEEK c) = ''Non-seekable stream'' \<and>
     opusError c (OP_EBADTIMESTAMP c) =
       ''Validity checks failed for first or last timestamp in a link'' \<and>
     (errnum \<notin> set (codes_list c) \<longrightarrow> opusError c errnum = ''Unknown error'')"
proof -
  have later: "distinct (rev (codes_list c))"
    using assms by simp
  have known: "opusError c (OP_FALSE c) = ''Request did not succeed''"
    "opusError c (OP_HOLE c) =
       ''There was a hole in the data and some samples may have been skipped''"
    "opusError c (OP_EREAD c) = ''An underlying read, seek, or tell operation failed''"
    "opusError c (OP_EFAULT c) = ''Internal memory allocation or library error''"
    "opusError c (OP_EIMPL c) = ''Unimplemented feature used in stream''"
    "opusError c (OP_EINVAL c) = ''One or more parameters to a function were invalid''"
    "opusError c (OP_ENOTFORMAT c) = ''Invalid Ogg Opus stream''"
    "opusError c (OP_EBADHEADER c) = ''Invalid Ogg Opus stream''"
    "opusError c (OP_EVERSION c) = ''Unrecognized version number in header''"
    "opusError c (OP_ENOTAUDIO c) = ''Unknown error''"
    "opusError c (OP_EBADPACKET c) = ''Failed to decode audio packet''"
    "opusError c (OP_EBADLINK c) = ''Seeking error''"
    "opusError c (OP_ENOSEEK c) = ''Non-seekable stream''"
    "opusError c (OP_EBADTIMESTAMP c) =
       ''Validity checks failed for first or last timestamp in a link''"
    using later by (simp_all add: codes_list_def opusError_def del: distinct_rev)
  have other: "errnum \<notin> set (codes_list c) \<longrightarrow> opusError c errnum = ''Unknown error''"
    by (simp add: codes_list_def opusError_def)
  from known other show ?thesis by blast
qed

theorem opusError_table_witness:
  "distinct (codes_list opusfile_codes) \<and>
   opusError opusfile_codes (- 3) =
     ''There was a hole in the data and some samples may have been skipped'' \<and>
   opusError opusfile_codes (- 137) = ''Seeking error'' \<and>
   opusError opusfile_codes 0 = ''Unknown error''"
  using opusError_table[of opusfile_codes 0]
  by (simp add: codes_list_def opusfile_codes_def)

subsection \<open>The callbacks\<close>

text \<open>
  C9. Each callback forwards to the operation of the byte stream. For a byte count that
  an \<open>int\<close> can hold and a stream that transfers no more than it was asked for,
  \<open>read_stream_callback\<close> returns the number of bytes the stream transferred (0 at the
  end of the stream) together with those bytes. For an offset that an \<open>int32\<close> can
  hold, \<open>seek_stream_callback\<close> returns 0 when the seek of the stream succeeds and -1
  when it fails. \<open>tell_stream_callback\<close> returns the position of the stream, and
  \<open>close_stream_callback\<close> returns 0 and leaves the stream as it is.
\<close>

theorem callbacks_forward:
  "(0 \<le> nbytes \<and> nbytes < 2 ^ 31 \<and> fst (stream_read io st (nat nbytes)) \<le> nat nbytes \<longrightarrow>
      read_stream_callback io st nbytes =
        (case stream_read io st (nat nbytes) of
           (result, bytes, st') \<Rightarrow> (int result, bytes, st'))) \<and>
   (- (2 ^ 31) \<le> offset \<and> offset < 2 ^ 31 \<longrightarrow>
      seek_stream_callback io st offset whence =
        (case stream_seek io st offset whence of
           (ok, st') \<Rightarrow> (if ok then 0 else - 1, st'))) \<and>
   tell_stream_callback io st = stream_pos io st \<and>
   close_stream_callback io st = (0, st)"
proof -
  have rd: "read_stream_callback io st nbytes =
        (case stream_read io st (nat nbytes) of
           (result, bytes, st') \<Rightarrow> (int result, bytes, st'))"
    if "0 \<le> nbytes" "nbytes < 2 ^ 31" "fst (stream_read io st (nat nbytes)) \<le> nat nbytes"
  proof -
    obtain result bytes st' where r: "stream_read io st (nat nbytes) = (result, bytes, st')"
      by (cases "stream_read io st (nat nbytes)") auto
    from that r have "int result < 2 ^ 31" by simp
    then have "to_int32 (int result) = int result"
      by (simp add: to_int32_id)
    moreover from that have "to_uint32 nbytes = nat nbytes"
      by (simp add: to_uint32_id)
    ultimately show ?thesis
      by (simp add: read_stream_callback_def r)
  qed
  have sk: "seek_stream_callback io st offset whence =
        (case stream_seek io st offset whence of
           (ok, st') \<Rightarrow> (if ok then 0 else - 1, st'))"
    if "- (2 ^ 31) \<le> offset" "offset < 2 ^ 31"
    using that by (simp add: seek_stream_callback_def to_int32_id)
  show ?thesis
    using rd sk by (simp add: tell_stream_callback_def close_stream_callback_def)
qed

theorem callbacks_forward_witness:
  "read_stream_callback mem_io ([1, 2, 3], 0) 2 = (2, [1, 2], ([1, 2, 3], 2)) \<and>
   seek_stream_callback mem_io ([1, 2, 3], 0) 5 0 = (- 1, ([1, 2, 3], 0)) \<and>
   seek_stream_callback mem_io ([1, 2, 3], 0) 3 0 = (0, ([1, 2, 3], 3)) \<and>
   tell_stream_callback mem_io ([1, 2, 3], 0) = 0 \<and>
   close_stream_callback mem_io ([1, 2, 3], 0) = (0, ([1, 2, 3], 0)) \<and>
   read_stream_callback mem_io ([1, 2, 3], 3) 2 = (0, [], ([1, 2, 3], 3))"
  using callbacks_forward[of 2 mem_io "([1, 2, 3], 0)" 5 0]
    callbacks_forward[of 2 mem_io "([1, 2, 3], 3)" 3 0]
    callbacks_forward[of 2 mem_io "([1, 2, 3], 0)" 3 0]
  by (simp add: mem_io_def)

subsection \<open>Reading at the end of the data\<close>

lemma readBuffer_at_end:
  "endOfData s \<Longrightarrow> readBuffer lib s numSamples = Some (Inr (0, [], s))"
  unfolding readBuffer_def by (subst readLoop.simps) (simp add: endOfData_def)

text \<open>
  C10. When \<open>endOfData\<close> holds at the call, \<open>readBuffer\<close> returns 0, copies nothing,
  and leaves the object as it was: cursor, end of buffer, buffer contents, channel count,
  rate, duration and the handle of the library, whatever the library would have answered
  to a call.
\<close>

theorem read_at_end_of_data:
  assumes "endOfData s"
  shows "readBuffer lib s numSamples = Some (Inr (0, [], s))"
  using assms by (rule readBuffer_at_end)

theorem read_at_end_of_data_witness:
  "endOfData ((raw0 ([], \<lparr>frames = [(1, 2)], cursor = 0\<rparr>))\<lparr>pos := 4, bufferEnd := 4\<rparr>) \<and>
   readBuffer damaged_lib ((raw0 ([], \<lparr>frames = [(1, 2)], cursor = 0\<rparr>))\<lparr>pos := 4, bufferEnd := 4\<rparr>) 10 =
     Some (Inr (0, [], (raw0 ([], \<lparr>frames = [(1, 2)], cursor = 0\<rparr>))\<lparr>pos := 4, bufferEnd := 4\<rparr>))"
  using read_at_end_of_data[of "(raw0 ([], \<lparr>frames = [(1, 2)], cursor = 0\<rparr>))\<lparr>pos := 4, bufferEnd := 4\<rparr>" damaged_lib 10]
  by (simp add: endOfData_def raw0_def)

subsection \<open>Refilling from a stream without errors\<close>

text \<open>
  For a stream without errors the loop of \<open>_fillBuffer\<close> returns: it succeeds, the
  buffer holds the next samples of the stream in their order, and it is full unless the
  stream is exhausted.
\<close>

lemma write_at_Nil [simp]: "write_at buf off [] = buf"
  by (simp add: write_at_def)

lemma take_write_at:
  "off + length vs \<le> length buf \<Longrightarrow> take (off + length vs) (write_at buf off vs) = take off buf @ vs"
  by (simp add: write_at_def)

lemma bufferSize_less: "bufferSize < 2 ^ 32"
  by (simp add: bufferSize_def)

lemma pcm_codec_read:
  assumes "pcm_codec lib ch left" "int ch \<le> n"
  obtains result vs f' where "op_read lib f n = (result, vs, f')"
    "0 \<le> result" "result * int ch \<le> n" "nat result * ch \<le> length (left f)"
    "vs = take (nat result * ch) (left f)" "left f' = drop (nat result * ch) (left f)"
    "result = 0 \<longleftrightarrow> left f = []"
proof -
  obtain result vs f' where r: "op_read lib f n = (result, vs, f')"
    by (cases "op_read lib f n") auto
  from assms have "case op_read lib f n of
           (result, vs, f') \<Rightarrow>
             0 \<le> result \<and> result * int ch \<le> n \<and>
             nat result * ch \<le> length (left f) \<and>
             vs = take (nat result * ch) (left f) \<and>
             left f' = drop (nat result * ch) (left f) \<and>
             (result = 0 \<longleftrightarrow> left f = [])"
    by (simp add: pcm_codec_def)
  with r that show ?thesis by simp
qed

lemma fillLoop_pcm:
  assumes c: "pcm_codec lib ch left"
  shows "channels s = ch \<Longrightarrow> ch dvd bufferSize \<Longrightarrow> length (buffer s) = bufferSize \<Longrightarrow>
    sr \<le> bufferSize \<Longrightarrow> ch dvd sr \<Longrightarrow>
    \<exists>s'. fillLoop lib s sr = Some (True, s') \<and> pos s' = 0 \<and> sr \<le> bufferEnd s' \<and>
      bufferEnd s' \<le> bufferSize \<and> length (buffer s') = bufferSize \<and>
      take (bufferEnd s') (buffer s') =
        take sr (buffer s) @ take (bufferEnd s' - sr) (left (opfile s)) \<and>
      bufferEnd s' - sr \<le> length (left (opfile s)) \<and>
      left (opfile s') = drop (bufferEnd s' - sr) (left (opfile s)) \<and>
      (bufferEnd s' < bufferSize \<longrightarrow> left (opfile s') = []) \<and>
      channels s' = ch \<and> rate s' = rate s \<and> length_ts s' = length_ts s \<and>
      console s' = console s"
proof (induction "bufferSize - sr" arbitrary: s sr rule: less_induct)
  case less
  note ch = \<open>channels s = ch\<close> and dv = \<open>ch dvd bufferSize\<close> and len = \<open>length (buffer s) = bufferSize\<close>
  from c have chpos: "0 < ch" by (simp add: pcm_codec_def)
  show ?case
  proof (cases "sr < bufferSize")
    case False
    with less.prems have "sr = bufferSize" by simp
    then show ?thesis
      using ch len by (subst fillLoop.simps) simp
  next
    case True
    then have "0 < bufferSize - sr" by simp
    moreover from dv \<open>ch dvd sr\<close> have "ch dvd bufferSize - sr" by (rule dvd_diff_nat)
    ultimately have "ch \<le> bufferSize - sr" by (rule dvd_imp_le[rotated])
    then have room: "int ch \<le> int (bufferSize - sr)" by simp
    from pcm_codec_read[OF c room, of "opfile s"]
    obtain result vs f' where rd: "op_read lib (opfile s) (int (bufferSize - sr)) = (result, vs, f')"
      and r0: "0 \<le> result" and fit: "result * int ch \<le> int (bufferSize - sr)"
      and av: "nat result * ch \<le> length (left (opfile s))"
      and vs: "vs = take (nat result * ch) (left (opfile s))"
      and lf: "left f' = drop (nat result * ch) (left (opfile s))"
      and z: "result = 0 \<longleftrightarrow> left (opfile s) = []"
      by blast
    show ?thesis
    proof (cases "result = 0")
      case True
      with z vs have "vs = []" by simp
      moreover from True lf z have "left f' = []" by simp
      ultimately show ?thesis using True rd \<open>sr < bufferSize\<close> z ch len less.prems
        by (subst fillLoop.simps) simp
    next
      case False
      with r0 have rp: "0 < result" by simp
      define k where "k = nat result * ch"
      define s2 where "s2 = s\<lparr>opfile := f', buffer := write_at (buffer s) sr vs\<rparr>"
      from rp chpos have kpos: "0 < k" by (simp add: k_def)
      have ik: "int k = result * int ch" using r0 by (simp add: k_def)
      with fit True have kfit: "sr + k \<le> bufferSize" by linarith
      have lvs: "length vs = k" using vs av by (simp add: k_def)
      have "int sr + result * int ch = int (sr + k)" using ik by simp
      moreover have "sr + k < 2 ^ 32" using kfit bufferSize_less by linarith
      ultimately have nxt: "to_uint32 (int sr + result * int (channels s)) = sr + k"
        using ch by (simp add: to_uint32_def)
      have step: "fillLoop lib s sr = fillLoop lib s2 (sr + k)"
        using True rd rp False nxt
        by (subst fillLoop.simps) (simp add: s2_def[symmetric] Let_def)
      have "bufferSize - (sr + k) < bufferSize - sr" using kpos True by simp
      moreover have "channels s2 = ch" "length (buffer s2) = bufferSize"
        using ch len by (simp_all add: s2_def)
      moreover have "ch dvd sr + k" using \<open>ch dvd sr\<close> by (simp add: k_def)
      ultimately obtain s' where ih: "fillLoop lib s2 (sr + k) = Some (True, s')" "pos s' = 0"
        "sr + k \<le> bufferEnd s'" "bufferEnd s' \<le> bufferSize" "length (buffer s') = bufferSize"
        "take (bufferEnd s') (buffer s') =
           take (sr + k) (buffer s2) @ take (bufferEnd s' - (sr + k)) (left (opfile s2))"
        "bufferEnd s' - (sr + k) \<le> length (left (opfile s2))"
        "left (opfile s') = drop (bufferEnd s' - (sr + k)) (left (opfile s2))"
        "bufferEnd s' < bufferSize \<longrightarrow> left (opfile s') = []"
        "channels s' = ch" "rate s' = rate s2" "length_ts s' = length_ts s2"
        "console s' = console s2"
        using less.hyps[of "sr + k" s2] dv kfit by blast
      have l2: "left (opfile s2) = drop k (left (opfile s))"
        using lf by (simp add: s2_def k_def)
      have t2: "take (sr + k) (buffer s2) = take sr (buffer s) @ take k (left (opfile s))"
        using take_write_at[of sr vs "buffer s"] kfit len lvs vs
        by (simp add: s2_def k_def)
      obtain m where m: "bufferEnd s' = sr + k + m"
        using ih(3) by (metis le_Suc_ex)
      have "take (bufferEnd s') (buffer s') =
          take (sr + k) (buffer s2) @ take m (drop k (left (opfile s)))"
        using ih(6) by (simp add: l2 m)
      also have "\<dots> = take sr (buffer s) @
          (take k (left (opfile s)) @ take m (drop k (left (opfile s))))"
        by (simp only: t2 append_assoc)
      also have "take k (left (opfile s)) @ take m (drop k (left (opfile s))) =
          take (k + m) (left (opfile s))"
        by (simp add: take_add)
      also have "k + m = bufferEnd s' - sr" by (simp add: m)
      finally have "take (bufferEnd s') (buffer s') =
          take sr (buffer s) @ take (bufferEnd s' - sr) (left (opfile s))" .
      moreover have "bufferEnd s' - sr \<le> length (left (opfile s))"
        using ih(7) av by (simp add: l2 m k_def)
      moreover have "left (opfile s') = drop (bufferEnd s' - sr) (left (opfile s))"
        using ih(8) by (simp add: l2 m add.commute)
      moreover have "sr \<le> bufferEnd s'" using m by simp
      moreover have "rate s' = rate s" "length_ts s' = length_ts s" "console s' = console s"
        using ih by (simp_all add: s2_def)
      ultimately show ?thesis
        using step ih by simp
    qed
  qed
qed

lemma fillBuffer_pcm:
  assumes c: "pcm_codec lib (channels s) left" and v: "length (buffer s) = bufferSize"
    "channels s dvd bufferSize"
  shows "\<exists>s'. fillBuffer lib s = Some (True, s') \<and> valid left s' \<and> pos s' = 0 \<and>
      pending left s' = left (opfile s) \<and>
      (endOfData s' \<longleftrightarrow> left (opfile s) = []) \<and>
      channels s' = channels s \<and> rate s' = rate s \<and> length_ts s' = length_ts s \<and>
      console s' = console s"
proof -
  from fillLoop_pcm[OF c refl v(2) v(1), of 0]
  obtain s' where f: "fillLoop lib s 0 = Some (True, s')" "pos s' = 0"
    "bufferEnd s' \<le> bufferSize" "length (buffer s') = bufferSize"
    "take (bufferEnd s') (buffer s') = take (bufferEnd s') (left (opfile s))"
    "bufferEnd s' \<le> length (left (opfile s))"
    "left (opfile s') = drop (bufferEnd s') (left (opfile s))"
    "bufferEnd s' < bufferSize \<longrightarrow> left (opfile s') = []"
    "channels s' = channels s" "rate s' = rate s" "length_ts s' = length_ts s"
    "console s' = console s"
    by auto
  have "0 < bufferSize" by (simp add: bufferSize_def)
  with f v have "valid left s'"
    by (auto simp: valid_def wellformed_def)
  moreover have "pending left s' = left (opfile s)"
    using f by (simp add: pending_def)
  moreover have "endOfData s' \<longleftrightarrow> left (opfile s) = []"
    using f \<open>0 < bufferSize\<close> by (auto simp: endOfData_def)
  ultimately show ?thesis
    using f by (simp add: fillBuffer_def)
qed

text \<open>
  For a stream without errors the loop of \<open>readBuffer\<close> returns without a fault: it
  copies the pending samples in their order, never more than asked for, and stops short
  only at the end of the data.
\<close>

lemma readLoop_pcm:
  assumes c: "pcm_codec lib ch left"
  shows "wellformed s \<Longrightarrow> channels s = ch \<Longrightarrow> samples \<le> numSamples \<Longrightarrow>
    \<exists>cnt out s'. readLoop lib s numSamples samples dst = Some (Inr (cnt, dst @ out, s')) \<and>
      wellformed s' \<and> (valid left s \<longrightarrow> valid left s') \<and>
      channels s' = ch \<and> samples \<le> cnt \<and> cnt \<le> numSamples \<and>
      int (length out) = cnt - samples \<and> out @ pending left s' = pending left s \<and>
      (cnt < numSamples \<longrightarrow> endOfData s') \<and>
      rate s' = rate s \<and> length_ts s' = length_ts s \<and> console s' = console s"
proof (induction "nat (numSamples - samples)" arbitrary: s samples dst rule: less_induct)
  case less
  note v = \<open>wellformed s\<close> and ch = \<open>channels s = ch\<close> and le = \<open>samples \<le> numSamples\<close>
  show ?case
  proof (cases "samples < numSamples \<and> pos s < bufferEnd s")
    case False
    then have "readLoop lib s numSamples samples dst = Some (Inr (samples, dst @ [], s))"
      by (subst readLoop.simps) auto
    moreover from False have "samples < numSamples \<longrightarrow> endOfData s"
      by (auto simp: endOfData_def)
    ultimately show ?thesis using v ch le by auto
  next
    case True
    define d where "d = bufferEnd s - pos s"
    define len where "len = min (numSamples - samples) (int d)"
    define chunk where "chunk = take (nat len) (drop (pos s) (buffer s))"
    define s1 where "s1 = s\<lparr>pos := pos s + nat len\<rparr>"
    from v have inb: "bufferEnd s \<le> bufferSize" "length (buffer s) = bufferSize"
      "channels s dvd bufferSize"
      by (simp_all add: wellformed_def)
    from True have dpos: "0 < d" by (simp add: d_def)
    have "int d < 2 ^ 31" using inb(1) by (simp add: d_def bufferSize_def)
    then have cast: "to_int32 (int (bufferEnd s) - int (pos s)) = int d"
      using True by (simp add: d_def to_int32_id)
    from True dpos have len1: "1 \<le> len" by (simp add: len_def)
    have lend: "nat len \<le> d" by (simp add: len_def)
    have inside: "pos s + nat len \<le> length (buffer s)"
      using lend inb True unfolding d_def by linarith
    have lchunk: "length chunk = nat len"
      using inside by (simp add: chunk_def)
    have meas: "nat (numSamples - (samples + len)) < nat (numSamples - samples)"
      using len1 True by simp
    have le1: "samples + len \<le> numSamples" by (simp add: len_def)
    show ?thesis
    proof (cases "bufferEnd s \<le> pos s + nat len")
      case False
      then have v1: "wellformed s1" and vv1: "valid left s1"
        using v by (simp_all add: valid_def wellformed_def s1_def)
      have step: "readLoop lib s numSamples samples dst =
          readLoop lib s1 numSamples (samples + len) (dst @ chunk)"
        using True False cast len1 inside
        by (subst readLoop.simps)
          (simp add: Let_def len_def[symmetric] chunk_def[symmetric] s1_def[symmetric],
            simp add: s1_def)
      from less.hyps[OF meas v1 _ le1, of "dst @ chunk"] ch
      obtain cnt out s' where ih:
        "readLoop lib s1 numSamples (samples + len) (dst @ chunk) =
           Some (Inr (cnt, (dst @ chunk) @ out, s'))"
        "wellformed s'" "channels s' = ch" "samples + len \<le> cnt" "cnt \<le> numSamples"
        "int (length out) = cnt - (samples + len)" "out @ pending left s' = pending left s1"
        "cnt < numSamples \<longrightarrow> endOfData s'"
        "rate s' = rate s1" "length_ts s' = length_ts s1" "console s' = console s1"
        "valid left s'"
        using vv1 by (auto simp: s1_def)
      have "chunk @ pending left s1 = pending left s"
      proof -
        obtain m where m: "d = nat len + m" using lend by (metis le_Suc_ex)
        have r: "bufferEnd s - (pos s + nat len) = m" using m by (simp add: d_def)
        have "take d (drop (pos s) (buffer s)) =
            chunk @ take m (drop (nat len) (drop (pos s) (buffer s)))"
          unfolding m chunk_def by (rule take_add)
        also have "drop (nat len) (drop (pos s) (buffer s)) = drop (pos s + nat len) (buffer s)"
          by (simp add: add.commute)
        finally show ?thesis
          using r by (simp add: pending_def s1_def d_def)
      qed
      with ih(7) have "(chunk @ out) @ pending left s' = pending left s" by simp
      moreover have "int (length (chunk @ out)) = cnt - samples"
        using ih(6) lchunk len1 by simp
      moreover have "samples \<le> cnt" using ih(4) len1 by simp
      moreover have "rate s' = rate s" "length_ts s' = length_ts s" "console s' = console s"
        using ih by (simp_all add: s1_def)
      moreover have "readLoop lib s numSamples samples dst =
           Some (Inr (cnt, dst @ (chunk @ out), s'))"
        using step ih(1) by simp
      ultimately show ?thesis using ih(2,3,5,8,12) by blast
    next
      case atend: True
      with lend have lenall: "nat len = d" using True by (simp add: d_def)
      have empty: "left (opfile s1) = left (opfile s)" by (simp add: s1_def)
      have "pcm_codec lib (channels s1) left" using c ch by (simp add: s1_def)
      from fillBuffer_pcm[OF this, of ] inb
      obtain s2 where fb: "fillBuffer lib s1 = Some (True, s2)" "valid left s2"
        "pending left s2 = left (opfile s1)" "channels s2 = channels s1"
        "rate s2 = rate s1" "length_ts s2 = length_ts s1" "console s2 = console s1"
        by (auto simp: s1_def)
      have step: "readLoop lib s numSamples samples dst =
          readLoop lib s2 numSamples (samples + len) (dst @ chunk)"
        using True atend cast len1 inside fb(1)
        by (subst readLoop.simps)
          (simp add: Let_def len_def[symmetric] chunk_def[symmetric] s1_def[symmetric],
            simp add: s1_def)
      have ch2: "channels s2 = ch" using fb(4) ch by (simp add: s1_def)
      from fb(2) have wf2: "wellformed s2" by (simp add: valid_def)
      from less.hyps[OF meas wf2 ch2 le1, of "dst @ chunk"] fb(2)
      obtain cnt out s' where ih:
        "readLoop lib s2 numSamples (samples + len) (dst @ chunk) =
           Some (Inr (cnt, (dst @ chunk) @ out, s'))"
        "wellformed s'" "channels s' = ch" "samples + len \<le> cnt" "cnt \<le> numSamples"
        "int (length out) = cnt - (samples + len)" "out @ pending left s' = pending left s2"
        "cnt < numSamples \<longrightarrow> endOfData s'"
        "rate s' = rate s2" "length_ts s' = length_ts s2" "console s' = console s2"
        "valid left s'"
        by auto
      have "chunk @ pending left s2 = pending left s"
        using fb(3) lenall by (simp add: pending_def chunk_def empty d_def)
      with ih(7) have "(chunk @ out) @ pending left s' = pending left s" by simp
      moreover have "int (length (chunk @ out)) = cnt - samples"
        using ih(6) lchunk len1 by simp
      moreover have "samples \<le> cnt" using ih(4) len1 by simp
      moreover have "rate s' = rate s" "length_ts s' = length_ts s" "console s' = console s"
        using ih fb by (simp_all add: s1_def)
      moreover have "readLoop lib s numSamples samples dst =
           Some (Inr (cnt, dst @ (chunk @ out), s'))"
        using step ih(1) by simp
      ultimately show ?thesis using ih(2,3,5,8,12) by blast
    qed
  qed
qed

subsection \<open>What the calls leave alone\<close>

lemma readLoop_frame:
  assumes "readLoop lib s n k dst = Some y"
  shows "\<forall>cnt out s'. y = Inr (cnt, out, s') \<longrightarrow>
     channels s' = channels s \<and> rate s' = rate s \<and> length_ts s' = length_ts s"
  using assms
proof (induction lib s n k dst y rule: readLoop.raw_induct[rotated 1, consumes 1])
  case (1 rl lib s n k dst y)
  show ?case
  proof (cases "k < n \<and> pos s < bufferEnd s")
    case False
    with 1(2) have "y = Inr (k, dst, s)" by (simp split: if_splits)
    then show ?thesis by simp
  next
    case True
    define len where "len = min (n - k) (to_int32 (int (bufferEnd s) - int (pos s)))"
    define s1 where "s1 = s\<lparr>pos := pos s + nat len\<rparr>"
    define dst1 where "dst1 = dst @ take (nat len) (drop (pos s) (buffer s))"
    have s1f: "channels s1 = channels s" "rate s1 = rate s" "length_ts s1 = length_ts s"
      by (simp_all add: s1_def)
    from 1(2) True
    have body: "(if len < 0 \<or> length (buffer s) < pos s + nat len then Some (Inl MemFault)
        else if bufferEnd s1 \<le> pos s1 then
          (case fillBuffer lib s1 of None \<Rightarrow> None
           | Some (ok, s2) \<Rightarrow>
               if \<not> ok then Some (Inr (k + len, dst1, s2))
               else rl lib s2 n (k + len) dst1)
        else rl lib s1 n (k + len) dst1) = Some y"
      unfolding len_def s1_def dst1_def Let_def by (simp only: if_True simp_thms)
    show ?thesis
    proof (cases "len < 0 \<or> length (buffer s) < pos s + nat len")
      case True
      from body[unfolded if_P[OF True]] have "y = Inl MemFault" by simp
      then show ?thesis by simp
    next
      case False
      note nofault = this
      show ?thesis
      proof (cases "bufferEnd s1 \<le> pos s1")
        case False
        from body[unfolded if_not_P[OF nofault] if_not_P[OF False]]
        have "rl lib s1 n (k + len) dst1 = Some y" .
        from 1(1)[OF this] show ?thesis unfolding s1f .
      next
        case atend: True
        from body[unfolded if_not_P[OF nofault] if_P[OF atend]]
        have fbody: "(case fillBuffer lib s1 of None \<Rightarrow> None
             | Some (ok, s2) \<Rightarrow>
                 if \<not> ok then Some (Inr (k + len, dst1, s2))
                 else rl lib s2 n (k + len) dst1) = Some y" .
        then obtain ok s2 where fb: "fillBuffer lib s1 = Some (ok, s2)"
          by (cases "fillBuffer lib s1") auto
        from fillBuffer_frame[OF fb] s1f
        have s2f: "channels s2 = channels s" "rate s2 = rate s" "length_ts s2 = length_ts s"
          by simp_all
        show ?thesis
        proof (cases ok)
          case False
          with fbody fb have "y = Inr (k + len, dst1, s2)" by simp
          with s2f show ?thesis by simp
        next
          case True
          with fbody fb have "rl lib s2 n (k + len) dst1 = Some y" by simp
          from 1(1)[OF this] show ?thesis unfolding s2f .
        qed
      qed
    qed
  qed
qed

lemma readBuffer_frame:
  "readBuffer lib s n = Some (Inr (cnt, dst, s')) \<Longrightarrow>
   channels s' = channels s \<and> rate s' = rate s \<and> length_ts s' = length_ts s"
  unfolding readBuffer_def by (drule readLoop_frame) simp

lemma seek_frame:
  assumes "seek lib conv s wh = Some (ok, s')"
  shows "channels s' = channels s \<and> rate s' = rate s \<and> length_ts s' = length_ts s \<and>
     (\<not> ok \<longrightarrow> endOfData s')"
proof -
  obtain result f' where ps: "op_pcm_seek lib (opfile s) (conv wh (getRate s)) = (result, f')"
    by (cases "op_pcm_seek lib (opfile s) (conv wh (getRate s))") auto
  show ?thesis
  proof (cases "result < 0")
    case True
    with assms ps show ?thesis
      by (auto simp: seek_def Let_def endOfData_def)
  next
    case False
    with assms ps have "fillBuffer lib (s\<lparr>opfile := f'\<rparr>) = Some (ok, s')"
      by (simp add: seek_def Let_def)
    from fillBuffer_frame[OF this] show ?thesis
      by (auto simp: endOfData_def)
  qed
qed

lemma calls_frame:
  "calls lib conv s cs = Some (Inr (rs, s')) \<Longrightarrow>
   channels s' = channels s \<and> rate s' = rate s \<and> length_ts s' = length_ts s"
proof (induction cs arbitrary: s rs)
  case Nil
  then show ?case by simp
next
  case (Cons c cs)
  show ?case
  proof (cases c)
    case (Read n)
    with Cons.prems obtain cnt dst s1 rs1 where
      "readBuffer lib s n = Some (Inr (cnt, dst, s1))" "calls lib conv s1 cs = Some (Inr (rs1, s'))"
      by (auto split: option.splits sum.splits)
    with Cons.IH[of s1 rs1] readBuffer_frame[of lib s n cnt dst s1] show ?thesis by simp
  next
    case (SeekTo wh)
    with Cons.prems obtain ok s1 rs1 where
      "seek lib conv s wh = Some (ok, s1)" "calls lib conv s1 cs = Some (Inr (rs1, s'))"
      by (auto split: option.splits sum.splits)
    with Cons.IH[of s1 rs1] seek_frame[of lib conv s wh ok s1] show ?thesis by simp
  qed
qed

lemma calls_stay_at_end:
  "calls lib conv s cs = Some (Inr (rs, s')) \<Longrightarrow> endOfData s \<Longrightarrow> Sought True \<notin> set rs \<Longrightarrow>
   endOfData s'"
proof (induction cs arbitrary: s rs)
  case Nil
  then show ?case by simp
next
  case (Cons c cs)
  show ?case
  proof (cases c)
    case (Read n)
    with Cons.prems readBuffer_at_end[OF Cons.prems(2), of lib n]
    obtain rs1 where "calls lib conv s cs = Some (Inr (rs1, s'))" "rs = Samples 0 [] # rs1"
      by (auto split: option.splits sum.splits)
    with Cons.IH[of s rs1] Cons.prems show ?thesis by simp
  next
    case (SeekTo wh)
    with Cons.prems obtain ok s1 rs1 where sk:
      "seek lib conv s wh = Some (ok, s1)" "calls lib conv s1 cs = Some (Inr (rs1, s'))"
      "rs = Sought ok # rs1"
      by (auto split: option.splits sum.splits)
    with Cons.prems have "\<not> ok" by auto
    with seek_frame[OF sk(1)] have "endOfData s1" by simp
    with Cons.IH[OF sk(2)] Cons.prems sk(3) show ?thesis by simp
  qed
qed

subsection \<open>The example library\<close>

lemma interleave_Nil [simp]: "interleave xs = [] \<longleftrightarrow> xs = []"
  by (cases xs) auto

lemma length_interleave [simp]: "length (interleave xs) = 2 * length xs"
  by (induction xs) auto

lemma take_interleave: "take (2 * k) (interleave xs) = interleave (take k xs)"
proof (induction xs arbitrary: k)
  case Nil
  then show ?case by simp
next
  case (Cons x xs)
  then show ?case by (cases k; cases x) simp_all
qed

lemma drop_interleave: "drop (2 * k) (interleave xs) = interleave (drop k xs)"
proof (induction xs arbitrary: k)
  case Nil
  then show ?case by simp
next
  case (Cons x xs)
  then show ?case by (cases k; cases x) simp_all
qed

lemma stereo_lib_pcm: "pcm_codec stereo_lib 2 stereo_left"
proof -
  have "case stereo_read f n of
           (result, vs, f') \<Rightarrow>
             0 \<le> result \<and> result * int 2 \<le> n \<and>
             nat result * 2 \<le> length (stereo_left f) \<and>
             vs = take (nat result * 2) (stereo_left f) \<and>
             stereo_left f' = drop (nat result * 2) (stereo_left f) \<and>
             (result = 0 \<longleftrightarrow> stereo_left f = [])" if "int 2 \<le> n" for f n
  proof -
    define k where "k = min (nat n div 2) (length (frames f) - cursor f)"
    have r: "stereo_read f n =
        (int k, interleave (take k (drop (cursor f) (frames f))), f\<lparr>cursor := cursor f + k\<rparr>)"
      by (simp add: stereo_read_def k_def Let_def)
    have "1 \<le> nat n div 2" using that by simp
    then have z: "k = 0 \<longleftrightarrow> length (frames f) \<le> cursor f" by (auto simp: k_def)
    have "int k * 2 \<le> n" using that by (simp add: k_def min_def) linarith
    moreover have "k * 2 \<le> length (stereo_left f)" by (simp add: stereo_left_def k_def)
    moreover have "interleave (take k (drop (cursor f) (frames f))) = take (k * 2) (stereo_left f)"
      by (simp add: stereo_left_def take_interleave[symmetric] mult.commute)
    moreover have "stereo_left (f\<lparr>cursor := cursor f + k\<rparr>) = drop (k * 2) (stereo_left f)"
      by (simp add: stereo_left_def drop_interleave[symmetric] mult.commute add.commute)
    moreover have "k = 0 \<longleftrightarrow> stereo_left f = []" using z by (simp add: stereo_left_def)
    ultimately show ?thesis by (simp add: r)
  qed
  then show ?thesis by (simp add: pcm_codec_def stereo_lib_def)
qed

subsection \<open>Reading a stream without errors\<close>

lemma readBuffer_pcm:
  assumes "pcm_codec lib (channels s) left" "wellformed s" "0 \<le> n"
  shows "\<exists>cnt dst s'. readBuffer lib s n = Some (Inr (cnt, dst, s')) \<and>
      wellformed s' \<and> (valid left s \<longrightarrow> valid left s') \<and>
      channels s' = channels s \<and> 0 \<le> cnt \<and> cnt \<le> n \<and>
      int (length dst) = cnt \<and> dst @ pending left s' = pending left s \<and>
      (cnt < n \<longrightarrow> endOfData s') \<and>
      rate s' = rate s \<and> length_ts s' = length_ts s \<and> console s' = console s"
  using readLoop_pcm[OF assms(1,2) refl, of 0 n "[]"] assms(3)
  unfolding readBuffer_def by auto

lemma valid_endOfData_pending: "valid left s \<Longrightarrow> endOfData s \<Longrightarrow> pending left s = []"
  by (auto simp: valid_def wellformed_def endOfData_def pending_def)

lemma calls_Read_at_end:
  "endOfData s \<Longrightarrow>
   calls lib conv s (map Read ns) = Some (Inr (map (\<lambda>n. Samples 0 []) ns, s))"
  by (induction ns) (simp_all add: readBuffer_at_end)

lemma delivered_at_end [simp]: "delivered (map (\<lambda>n. Samples 0 []) ns) = []"
  by (induction ns) simp_all

lemma returned_at_end [simp]: "returned (map (\<lambda>n. Samples 0 []) ns) = 0"
  by (induction ns) simp_all
lemma calls_Read_pcm:
  assumes c: "pcm_codec lib ch left"
  shows "valid left s \<Longrightarrow> channels s = ch \<Longrightarrow> list_all (\<lambda>n. 0 \<le> n) ns \<Longrightarrow>
    \<exists>rs s'. calls lib conv s (map Read ns) = Some (Inr (rs, s')) \<and>
      list_all2 within ns rs \<and> valid left s' \<and>
      delivered rs @ pending left s' = pending left s \<and>
      returned rs = int (length (delivered rs)) \<and>
      (int (length (pending left s)) < sum_list ns \<longrightarrow> endOfData s')"
proof (induction ns arbitrary: s)
  case Nil
  then show ?case by simp
next
  case (Cons n ns)
  from Cons.prems have n0: "0 \<le> n" and rest: "list_all (\<lambda>n. 0 \<le> n) ns" by simp_all
  from c Cons.prems(2) have c': "pcm_codec lib (channels s) left" by simp
  from Cons.prems(1) have wf: "wellformed s" by (simp add: valid_def)
  from readBuffer_pcm[OF c' wf n0] Cons.prems(1)
  obtain cnt dst s1 where rb: "readBuffer lib s n = Some (Inr (cnt, dst, s1))"
    "valid left s1" "channels s1 = channels s" "0 \<le> cnt" "cnt \<le> n"
    "int (length dst) = cnt" "dst @ pending left s1 = pending left s"
    "cnt < n \<longrightarrow> endOfData s1"
    by blast
  have w: "within n (Samples cnt dst)" using rb by (simp add: within_def)
  show ?case
  proof (cases "cnt < n")
    case True
    with rb have e: "endOfData s1" by simp
    then have "pending left s1 = []" using rb(2) by (simp add: valid_endOfData_pending)
    moreover have "list_all2 within ns (map (\<lambda>n. Samples 0 []) ns)"
      using rest by (induction ns) (simp_all add: within_def)
    ultimately show ?thesis
      using rb w e calls_Read_at_end[OF e, of lib conv ns] by auto
  next
    case False
    with rb have full: "cnt = n" by simp
    from Cons.IH[OF rb(2) _ rest] rb(3) Cons.prems(2)
    obtain rs s' where ih: "calls lib conv s1 (map Read ns) = Some (Inr (rs, s'))"
      "list_all2 within ns rs" "valid left s'"
      "delivered rs @ pending left s' = pending left s1"
      "returned rs = int (length (delivered rs))"
      "int (length (pending left s1)) < sum_list ns \<longrightarrow> endOfData s'"
      by auto
    have "length (pending left s) = length dst + length (pending left s1)"
      using rb(7) by (metis length_append)
    with rb(6) full ih(6)
    have "int (length (pending left s)) < sum_list (n # ns) \<longrightarrow> endOfData s'"
      by simp
    moreover have "delivered (Samples cnt dst # rs) @ pending left s' = pending left s"
      using ih(4) rb(7) by simp
    moreover have "returned (Samples cnt dst # rs) = int (length (delivered (Samples cnt dst # rs)))"
      using ih(5) rb(6) by simp
    ultimately show ?thesis
      using rb(1) ih(1,2,3) w by simp
  qed
qed

subsection \<open>The constructor\<close>

lemma OpusStream_new_failed:
  assumes "op_open_callbacks lib st (g_stream_callbacks io) = (r, f)" "r < 0"
  shows "\<exists>s. OpusStream_new lib io raw st = Some s \<and> endOfData s \<and> opfile s = f"
  using assms by (simp add: OpusStream_new_def Let_def endOfData_def)

lemma OpusStream_new_opened:
  assumes "op_open_callbacks lib st (g_stream_callbacks io) = (r, f)" "0 \<le> r"
  shows "OpusStream_new lib io raw st =
    (case fillBuffer lib (opened lib raw f) of
       None \<Rightarrow> None
     | Some (ok, s2) \<Rightarrow> if \<not> ok then Some s2 else Some (measured lib s2))"
  using assms
  by (simp add: OpusStream_new_def Let_def opened_def measured_def
      split: option.splits)

lemma measured_simps [simp]:
  "channels (measured lib s) = channels s" "rate (measured lib s) = rate s"
  "opfile (measured lib s) = opfile s" "buffer (measured lib s) = buffer s"
  "pos (measured lib s) = pos s" "bufferEnd (measured lib s) = bufferEnd s"
  "length_ts (measured lib s) =
     \<lparr>msecs = to_uint32 (c_div (op_pcm_total lib (opfile s)) (rate s) * 1000),
      framerate = to_uint32 (rate s)\<rparr>"
  "console (measured lib s) =
     (if op_pcm_total lib (opfile s) < 0
      then console s @ [''Could not determine length of Opus stream: '' @
                        opusError (codes lib) (to_int32 (op_pcm_total lib (opfile s)))]
      else console s)"
  by (simp_all add: measured_def Let_def)

lemma opened_simps [simp]:
  "channels (opened lib raw f) = nat (op_channel_count lib f mod 256)"
  "rate (opened lib raw f) = 48000" "opfile (opened lib raw f) = f"
  "buffer (opened lib raw f) = buffer raw" "pos (opened lib raw f) = pos raw"
  "bufferEnd (opened lib raw f) = bufferSize" "console (opened lib raw f) = console raw"
  by (simp_all add: opened_def)

lemma valid_measured [simp]: "valid left (measured lib s) = valid left s"
  by (simp add: valid_def wellformed_def)

lemma pending_measured [simp]: "pending left (measured lib s) = pending left s"
  by (simp add: pending_def)

lemma endOfData_measured [simp]: "endOfData (measured lib s) = endOfData s"
  by (simp add: endOfData_def)

lemma OpusStream_new_pcm:
  assumes op: "op_open_callbacks lib st (g_stream_callbacks io) = (r, f)" "0 \<le> r"
    and c: "pcm_codec lib (nat (op_channel_count lib f mod 256)) left"
    and dv: "nat (op_channel_count lib f mod 256) dvd bufferSize"
    and len: "length (buffer raw) = bufferSize"
  shows "\<exists>s. OpusStream_new lib io raw st = Some s \<and> valid left s \<and>
      pending left s = left f \<and> (endOfData s \<longleftrightarrow> left f = []) \<and>
      channels s = nat (op_channel_count lib f mod 256) \<and> rate s = 48000 \<and>
      length_ts s =
        \<lparr>msecs = to_uint32 (c_div (op_pcm_total lib (opfile s)) 48000 * 1000),
         framerate = 48000\<rparr>"
proof -
  from fillBuffer_pcm[of lib "opened lib raw f" left] c dv len
  obtain s2 where fb: "fillBuffer lib (opened lib raw f) = Some (True, s2)" "valid left s2"
    "pending left s2 = left f" "endOfData s2 \<longleftrightarrow> left f = []"
    "channels s2 = nat (op_channel_count lib f mod 256)" "rate s2 = 48000"
    by auto
  from OpusStream_new_opened[OF op, of raw] fb(1)
  have "OpusStream_new lib io raw st = Some (measured lib s2)" by simp
  with fb show ?thesis by (simp add: to_uint32_def)
qed

subsection \<open>A hole in the data\<close>

text \<open>
  After the warning for \<open>OP_HOLE\<close> the loop of \<open>_fillBuffer\<close> does not start its next
  round at once: it goes on to \<open>samplesRead += result * _channels\<close> with the negative
  \<open>result\<close>.
\<close>

lemma fillLoop_done:
  "\<not> sr < bufferSize \<Longrightarrow> fillLoop lib s sr = Some (True, s\<lparr>pos := 0, bufferEnd := sr\<rparr>)"
  by (subst fillLoop.simps) simp

lemma fillLoop_hole:
  assumes "sr < bufferSize"
    and "op_read lib (opfile s) (int (bufferSize - sr)) = (OP_HOLE (codes lib), vs, f')"
    and "OP_HOLE (codes lib) < 0"
  shows "fillLoop lib s sr =
    fillLoop lib
      (warning (''Error reading from Opus stream: '' @
                opusError (codes lib) (OP_HOLE (codes lib)))
         (s\<lparr>opfile := f', buffer := write_at (buffer s) sr vs\<rparr>))
      (to_uint32 (int sr + OP_HOLE (codes lib) * int (channels s)))"
  using assms by (subst fillLoop.simps) (simp add: Let_def)

lemma fillLoop_data:
  assumes "sr < bufferSize"
    and "op_read lib (opfile s) (int (bufferSize - sr)) = (result, vs, f')"
    and "0 < result"
  shows "fillLoop lib s sr =
    fillLoop lib (s\<lparr>opfile := f', buffer := write_at (buffer s) sr vs\<rparr>)
      (to_uint32 (int sr + result * int (channels s)))"
  using assms by (subst fillLoop.simps) (simp add: Let_def)

lemma fillLoop_error:
  assumes "sr < bufferSize"
    and "op_read lib (opfile s) (int (bufferSize - sr)) = (result, vs, f')"
    and "result < 0" "result \<noteq> OP_HOLE (codes lib)"
  shows "\<exists>s'. fillLoop lib s sr = Some (False, s') \<and> opfile s' = f'"
  using assms by (subst fillLoop.simps) (simp add: Let_def)

text \<open>
  C1. A stream whose first call of \<open>op_read\<close> reports a hole (\<open>OP_HOLE\<close> is -3)
  and whose later calls would succeed: a stereo source of two frames, opened by
  \<open>makeOpusStream\<close>. The hole
  is logged and the stream is not marked exhausted, but the loop does not issue another
  call (the cursor of the library is still at frame 0): \<open>samplesRead\<close> becomes
  \<open>0 + (uint)(-3 * 2) = 4294967290\<close>, the loop ends, and \<open>_bufferEnd\<close> lies
  4294967290 values behind the start of an array of 11520. The next \<open>readBuffer\<close>
  computes the length \<open>(int)4294967290 = -6\<close> and is a memory fault instead of a
  delivery of samples. (Where pointers have 32 bits the sum wraps to 6 values before the
  array, and the stream reports the end of the data at once.)
\<close>

theorem hole_at_start_of_refill:
  "\<exists>d. makeOpusStream damaged_lib idle_io (raw0 ([], \<lparr>frames = [], cursor = 0\<rparr>))
          ([- 3], [(1, 2), (3, 4)]) = Some (Some d) \<and>
     opfile d = ([], \<lparr>frames = [(1, 2), (3, 4)], cursor = 0\<rparr>) \<and>
     console d = [''Error reading from Opus stream: '' @
       ''There was a hole in the data and some samples may have been skipped''] \<and>
     pos d = 0 \<and> bufferEnd d = 4294967290 \<and> length (buffer d) = 11520 \<and>
     readBuffer damaged_lib d 2 = Some (Inl MemFault)"
proof -
  define f where "f = \<lparr>frames = [(1, 2), (3, 4) :: int16 \<times> int16], cursor = 0\<rparr>"
  define raw where "raw = raw0 ([] :: int list, \<lparr>frames = [] :: (int16 \<times> int16) list, cursor = 0\<rparr>)"
  define s1 where "s1 = opened damaged_lib raw ([- 3], f)"
  define s2 where "s2 = warning (''Error reading from Opus stream: '' @
        opusError (codes damaged_lib) (OP_HOLE (codes damaged_lib)))
      (s1\<lparr>opfile := ([], f), buffer := write_at (buffer s1) 0 []\<rparr>)"
  define d where "d = measured damaged_lib (s2\<lparr>pos := 0, bufferEnd := 4294967290\<rparr>)"
  have op: "op_open_callbacks damaged_lib ([- 3], [(1, 2), (3, 4)]) (g_stream_callbacks idle_io) =
      (0, ([- 3], f))"
    by (simp add: damaged_lib_def f_def)
  have hole: "OP_HOLE (codes damaged_lib) = - 3"
    by (simp add: damaged_lib_def opusfile_codes_def)
  have ch: "channels s1 = 2"
    by (simp add: s1_def damaged_lib_def)
  have rd: "op_read damaged_lib (opfile s1) (int (bufferSize - 0)) = (OP_HOLE (codes damaged_lib), [], ([], f))"
    by (simp add: s1_def damaged_lib_def opusfile_codes_def)
  have "fillLoop damaged_lib s1 0 = fillLoop damaged_lib s2 (to_uint32 (int 0 + OP_HOLE (codes damaged_lib) * int (channels s1)))"
    unfolding s2_def by (rule fillLoop_hole[OF _ rd]) (simp_all add: bufferSize_def hole)
  also have "to_uint32 (int 0 + OP_HOLE (codes damaged_lib) * int (channels s1)) = 4294967290"
    by (simp add: hole ch to_uint32_def)
  also have "fillLoop damaged_lib s2 4294967290 = Some (True, s2\<lparr>pos := 0, bufferEnd := 4294967290\<rparr>)"
    by (rule fillLoop_done) (simp add: bufferSize_def)
  finally have fb: "fillBuffer damaged_lib s1 = Some (True, s2\<lparr>pos := 0, bufferEnd := 4294967290\<rparr>)"
    by (simp add: fillBuffer_def)
  from OpusStream_new_opened[OF op, of raw] fb
  have new: "OpusStream_new damaged_lib idle_io raw ([- 3], [(1, 2), (3, 4)]) = Some d"
    by (simp add: s1_def d_def)
  have pt: "op_pcm_total damaged_lib ([], f) = 2"
    by (simp add: damaged_lib_def f_def)
  have msg: "opusError (codes damaged_lib) (OP_HOLE (codes damaged_lib)) =
      ''There was a hole in the data and some samples may have been skipped''"
    by (simp add: damaged_lib_def opusError_def opusfile_codes_def)
  have fields: "opfile d = ([], f)" "pos d = 0" "bufferEnd d = 4294967290"
    "length (buffer d) = 11520"
    "console d = [''Error reading from Opus stream: '' @
       ''There was a hole in the data and some samples may have been skipped'']"
    by (simp_all add: d_def s2_def s1_def raw_def raw0_def bufferSize_def pt msg)
  have "makeOpusStream damaged_lib idle_io raw ([- 3], [(1, 2), (3, 4)]) = Some (Some d)"
    using new fields by (simp add: makeOpusStream_def endOfData_def)
  moreover have "readBuffer damaged_lib d 2 = Some (Inl MemFault)"
    unfolding readBuffer_def
    by (subst readLoop.simps) (simp add: fields to_int32_def Let_def)
  ultimately show ?thesis
    using fields unfolding raw_def f_def by blast
qed

subsection \<open>The duration\<close>

text \<open>
  Whenever the open and the first refill succeed, the duration is the number of whole
  seconds in the frame count that \<open>op_pcm_total\<close> reports, written in milliseconds;
  a stream shorter than one second has the duration 0.
\<close>

lemma getLength_whole_seconds:
  assumes "op_open_callbacks lib st (g_stream_callbacks io) = (r, f)" "0 \<le> r"
    and "fillBuffer lib (opened lib raw f) = Some (True, s2)"
  shows "\<exists>s. OpusStream_new lib io raw st = Some s \<and> opfile s = opfile s2 \<and>
     getLength s =
       \<lparr>msecs = to_uint32 (c_div (op_pcm_total lib (opfile s)) 48000 * 1000),
        framerate = 48000\<rparr>"
proof -
  from fillBuffer_frame[OF assms(3)] have "rate s2 = 48000" by simp
  moreover from OpusStream_new_opened[OF assms(1,2), of raw] assms(3)
  have "OpusStream_new lib io raw st = Some (measured lib s2)" by simp
  ultimately show ?thesis by (simp add: getLength_def to_uint32_def)
qed

lemma c_div_less: "0 \<le> a \<Longrightarrow> a < b \<Longrightarrow> c_div a b * 1000 = 0"
  by (simp add: c_div_def)

text \<open>
  C2. A stereo source of 24000 frames, 500 ms at 48 kHz, opened by the constructor:
  the stream is stereo, its rate is 48000 and \<open>op_pcm_total\<close> reports 24000 frames,
  but the duration is \<open>Timestamp(24000 / 48000 * 1000, 48000)\<close>, and the integer
  division comes first: \<open>getLength\<close> is 0 ms.
\<close>

theorem half_second_length:
  "\<exists>s. OpusStream_new stereo_lib idle_io (raw0 \<lparr>frames = [], cursor = 0\<rparr>)
          (replicate 24000 (0, 0)) = Some s \<and>
     isStereo s \<and> getRate s = 48000 \<and> \<not> endOfData s \<and>
     op_pcm_total stereo_lib (opfile s) = 24000 \<and>
     getLength s = \<lparr>msecs = 0, framerate = 48000\<rparr>"
proof -
  define f where "f = \<lparr>frames = replicate 24000 (0 :: int16, 0 :: int16), cursor = 0\<rparr>"
  define raw where "raw = raw0 \<lparr>frames = [] :: (int16 \<times> int16) list, cursor = 0\<rparr>"
  define s1 where "s1 = opened stereo_lib raw f"
  define vs where "vs = interleave (take 5760 (frames f))"
  define s2 where "s2 = s1\<lparr>opfile := f\<lparr>cursor := 5760\<rparr>, buffer := write_at (buffer s1) 0 vs\<rparr>"
  define s where "s = measured stereo_lib (s2\<lparr>pos := 0, bufferEnd := 11520\<rparr>)"
  have op: "op_open_callbacks stereo_lib (replicate 24000 (0, 0)) (g_stream_callbacks idle_io) = (0, f)"
    by (simp add: stereo_lib_def f_def)
  have ch: "channels s1 = 2"
    by (simp add: s1_def stereo_lib_def)
  have rd: "op_read stereo_lib (opfile s1) (int (bufferSize - 0)) = (5760, vs, f\<lparr>cursor := 5760\<rparr>)"
    by (simp add: s1_def stereo_lib_def stereo_read_def bufferSize_def f_def vs_def)
  have "fillLoop stereo_lib s1 0 = fillLoop stereo_lib s2 (to_uint32 (int 0 + 5760 * int (channels s1)))"
    unfolding s2_def by (rule fillLoop_data[OF _ rd]) (simp_all add: bufferSize_def)
  also have "to_uint32 (int 0 + 5760 * int (channels s1)) = 11520"
    by (simp add: ch to_uint32_def)
  also have "fillLoop stereo_lib s2 11520 = Some (True, s2\<lparr>pos := 0, bufferEnd := 11520\<rparr>)"
    by (rule fillLoop_done) (simp add: bufferSize_def)
  finally have fb: "fillBuffer stereo_lib s1 = Some (True, s2\<lparr>pos := 0, bufferEnd := 11520\<rparr>)"
    by (simp add: fillBuffer_def)
  from OpusStream_new_opened[OF op, of raw] fb
  have new: "OpusStream_new stereo_lib idle_io raw (replicate 24000 (0, 0)) = Some s"
    by (simp add: s1_def s_def)
  have pt: "op_pcm_total stereo_lib (opfile s) = 24000"
    by (simp add: s_def s2_def stereo_lib_def f_def)
  then have pt2: "op_pcm_total stereo_lib (f\<lparr>cursor := 5760\<rparr>) = 24000"
    by (simp add: s_def s2_def)
  have "c_div 24000 48000 * 1000 = 0"
    by (simp add: c_div_def)
  then have len: "getLength s = \<lparr>msecs = 0, framerate = 48000\<rparr>"
    by (simp add: getLength_def s_def s2_def s1_def pt2 to_uint32_def)
  have "isStereo s" "getRate s = 48000" "\<not> endOfData s"
    by (simp_all add: isStereo_def getRate_def endOfData_def s_def s2_def ch) (simp add: s1_def)
  with new pt len show ?thesis unfolding raw_def by blast
qed

subsection \<open>The example stream\<close>

text \<open>
  The constructor on the stereo source of two frames: one call of \<open>op_read\<close> hands out
  both frames, the next returns 0, and the object is \<open>demo_stream\<close>.
\<close>

lemma fillLoop_eof:
  assumes "sr < bufferSize"
    and "op_read lib (opfile s) (int (bufferSize - sr)) = (0, vs, f')"
  shows "fillLoop lib s sr =
    Some (True, s\<lparr>opfile := f', buffer := write_at (buffer s) sr vs, pos := 0, bufferEnd := sr\<rparr>)"
  using assms by (subst fillLoop.simps) (simp add: Let_def)

lemma demo_stream_opened:
  "OpusStream_new stereo_lib idle_io (raw0 \<lparr>frames = [], cursor = 0\<rparr>) [(1, 2), (3, 4)] =
   Some demo_stream"
proof -
  define f where "f = \<lparr>frames = [(1, 2), (3, 4) :: int16 \<times> int16], cursor = 0\<rparr>"
  define raw where "raw = raw0 \<lparr>frames = [] :: (int16 \<times> int16) list, cursor = 0\<rparr>"
  define s1 where "s1 = opened stereo_lib raw f"
  define s2 where "s2 = s1\<lparr>opfile := demo_file, buffer := write_at (buffer s1) 0 [1, 2, 3, 4]\<rparr>"
  have op: "op_open_callbacks stereo_lib [(1, 2), (3, 4)] (g_stream_callbacks idle_io) = (0, f)"
    by (simp add: stereo_lib_def f_def)
  have ch: "channels s1 = 2"
    by (simp add: s1_def stereo_lib_def)
  have rd: "op_read stereo_lib (opfile s1) (int (bufferSize - 0)) = (2, [1, 2, 3, 4], demo_file)"
    by (simp add: s1_def stereo_lib_def stereo_read_def bufferSize_def f_def demo_file_def)
  have rd2: "op_read stereo_lib (opfile s2) (int (bufferSize - 4)) = (0, [], demo_file)"
    by (simp add: s2_def stereo_lib_def stereo_read_def bufferSize_def demo_file_def)
  have "fillLoop stereo_lib s1 0 = fillLoop stereo_lib s2 (to_uint32 (int 0 + 2 * int (channels s1)))"
    unfolding s2_def by (rule fillLoop_data[OF _ rd]) (simp_all add: bufferSize_def)
  also have "to_uint32 (int 0 + 2 * int (channels s1)) = 4"
    by (simp add: ch to_uint32_def)
  also have "fillLoop stereo_lib s2 4 =
      Some (True, s2\<lparr>opfile := demo_file, buffer := write_at (buffer s2) 4 [], pos := 0, bufferEnd := 4\<rparr>)"
    by (rule fillLoop_eof[OF _ rd2]) (simp add: bufferSize_def)
  finally have fb: "fillBuffer stereo_lib s1 = Some (True, s2\<lparr>pos := 0, bufferEnd := 4\<rparr>)"
    by (simp add: fillBuffer_def s2_def)
  have "c_div 2 48000 * 1000 = 0" by (simp add: c_div_def)
  moreover have "op_pcm_total stereo_lib demo_file = 2"
    by (simp add: stereo_lib_def demo_file_def)
  ultimately have "measured stereo_lib (s2\<lparr>pos := 0, bufferEnd := 4\<rparr>) = demo_stream"
    by (simp add: measured_def s2_def s1_def opened_def raw_def raw0_def demo_stream_def
        to_uint32_def stereo_lib_def)
  with OpusStream_new_opened[OF op, of raw] fb show ?thesis
    by (simp add: s1_def raw_def)
qed

lemma wellformed_demo: "wellformed demo_stream"
  by (simp add: wellformed_def demo_stream_def bufferSize_def)

lemma valid_demo: "valid stereo_left demo_stream"
  by (simp add: valid_def wellformed_demo) (simp add: demo_stream_def)

lemma pending_demo: "pending stereo_left demo_stream = [1, 2, 3, 4]"
  by (simp add: pending_def demo_stream_def demo_file_def stereo_left_def write_at_def
      bufferSize_def)

text \<open>
  Two reads on it, of 3 and of 5 samples: the first copies three values, the second
  copies the last one, refills, finds the stream exhausted and returns 1.
\<close>

lemma readLoop_exit:
  "\<not> (samples < numSamples \<and> pos s < bufferEnd s) \<Longrightarrow>
   readLoop lib s numSamples samples dst = Some (Inr (samples, dst, s))"
  by (subst readLoop.simps) auto

lemma demo_buffer: "take 4 (buffer demo_stream) = [1, 2, 3, 4]" "length (buffer demo_stream) = 11520"
  by (simp_all add: demo_stream_def write_at_def bufferSize_def)

lemma demo_read_3:
  "readBuffer stereo_lib demo_stream 3 = Some (Inr (3, [1, 2, 3], demo_stream\<lparr>pos := 3\<rparr>))"
proof -
  have f: "pos demo_stream = 0" "bufferEnd demo_stream = 4"
    by (simp_all add: demo_stream_def)
  have "take 3 (take 4 (buffer demo_stream)) = [1, 2, 3]"
    by (simp only: demo_buffer) simp
  then have t: "take 3 (buffer demo_stream) = [1, 2, 3]" by simp
  have "readLoop stereo_lib demo_stream 3 0 [] =
      readLoop stereo_lib (demo_stream\<lparr>pos := 3\<rparr>) 3 3 [1, 2, 3]"
    by (subst readLoop.simps) (simp add: f t demo_buffer to_int32_def Let_def)
  also have "\<dots> = Some (Inr (3, [1, 2, 3], demo_stream\<lparr>pos := 3\<rparr>))"
    by (rule readLoop_exit) simp
  finally show ?thesis by (simp add: readBuffer_def)
qed

lemma demo_read_5:
  "readBuffer stereo_lib (demo_stream\<lparr>pos := 3\<rparr>) 5 =
   Some (Inr (1, [4], demo_stream\<lparr>pos := 0, bufferEnd := 0\<rparr>))"
proof -
  let ?s = "demo_stream\<lparr>pos := 3\<rparr>"
  have f: "pos ?s = 3" "bufferEnd ?s = 4" "buffer ?s = buffer demo_stream"
    "bufferEnd demo_stream = 4"
    by (simp_all add: demo_stream_def)
  have "drop 3 (take 4 (buffer demo_stream)) = [4]"
    by (simp only: demo_buffer) simp
  then have t: "take (Suc 0) (drop 3 (buffer demo_stream)) = [4]"
    by (simp add: drop_take)
  have rd: "op_read stereo_lib (opfile (demo_stream\<lparr>pos := 4\<rparr>)) (int (bufferSize - 0)) =
      (0, [], demo_file)"
    by (simp add: stereo_lib_def stereo_read_def demo_stream_def demo_file_def)
  have fb: "fillBuffer stereo_lib (demo_stream\<lparr>pos := 4\<rparr>) =
      Some (True, demo_stream\<lparr>pos := 0, bufferEnd := 0\<rparr>)"
    unfolding fillBuffer_def
    by (subst fillLoop_eof[OF _ rd]) (simp_all add: bufferSize_def demo_stream_def)
  have "readLoop stereo_lib ?s 5 0 [] =
      readLoop stereo_lib (demo_stream\<lparr>pos := 0, bufferEnd := 0\<rparr>) 5 1 [4]"
    by (subst readLoop.simps) (simp add: f t demo_buffer to_int32_def Let_def fb)
  also have "\<dots> = Some (Inr (1, [4], demo_stream\<lparr>pos := 0, bufferEnd := 0\<rparr>))"
    by (rule readLoop_exit) simp
  finally show ?thesis by (simp add: readBuffer_def)
qed

lemma demo_reads:
  "calls stereo_lib conv demo_stream [Read 3, Read 5] =
   Some (Inr ([Samples 3 [1, 2, 3], Samples 1 [4]], demo_stream\<lparr>pos := 0, bufferEnd := 0\<rparr>))"
  by (simp add: demo_read_3 demo_read_5)

subsection \<open>Calls on a stream without errors return\<close>

lemma readBuffer_returns:
  assumes "pcm_codec lib (channels s) left" "wellformed s"
  shows "\<exists>cnt dst s'. readBuffer lib s n = Some (Inr (cnt, dst, s')) \<and>
      wellformed s' \<and> channels s' = channels s"
proof (cases "0 \<le> n")
  case True
  from readBuffer_pcm[OF assms True] show ?thesis by blast
next
  case False
  then have "readBuffer lib s n = Some (Inr (0, [], s))"
    unfolding readBuffer_def by (subst readLoop.simps) simp
  with assms show ?thesis by simp
qed

lemma seek_pcm:
  assumes "pcm_codec lib (channels s) left" "wellformed s"
  shows "\<exists>ok s'. seek lib conv s wh = Some (ok, s') \<and> wellformed s' \<and>
     channels s' = channels s"
proof -
  obtain result f' where ps: "op_pcm_seek lib (opfile s) (conv wh (getRate s)) = (result, f')"
    by (cases "op_pcm_seek lib (opfile s) (conv wh (getRate s))") auto
  show ?thesis
  proof (cases "result < 0")
    case True
    with ps assms(2) show ?thesis
      by (auto simp: seek_def Let_def wellformed_def)
  next
    case False
    from assms have "pcm_codec lib (channels (s\<lparr>opfile := f'\<rparr>)) left"
      "length (buffer (s\<lparr>opfile := f'\<rparr>)) = bufferSize"
      "channels (s\<lparr>opfile := f'\<rparr>) dvd bufferSize"
      by (simp_all add: wellformed_def)
    from fillBuffer_pcm[OF this]
    obtain s' where "fillBuffer lib (s\<lparr>opfile := f'\<rparr>) = Some (True, s')" "valid left s'"
      "channels s' = channels s"
      by auto
    with ps False show ?thesis
      by (auto simp: seek_def Let_def valid_def)
  qed
qed

lemma calls_pcm:
  assumes c: "pcm_codec lib ch left"
  shows "wellformed s \<Longrightarrow> channels s = ch \<Longrightarrow>
    \<exists>rs s'. calls lib conv s cs = Some (Inr (rs, s')) \<and> wellformed s' \<and> channels s' = ch"
proof (induction cs arbitrary: s)
  case Nil
  then show ?case by simp
next
  case (Cons a cs)
  from c Cons.prems have c': "pcm_codec lib (channels s) left" by simp
  show ?case
  proof (cases a)
    case (Read n)
    from readBuffer_returns[OF c' Cons.prems(1), of n]
    obtain cnt dst s1 where rb: "readBuffer lib s n = Some (Inr (cnt, dst, s1))"
      "wellformed s1" "channels s1 = channels s"
      by blast
    from Cons.IH[OF rb(2)] rb(3) Cons.prems(2)
    obtain rs s' where "calls lib conv s1 cs = Some (Inr (rs, s'))" "wellformed s'"
      "channels s' = ch"
      by auto
    with rb(1) Read show ?thesis by simp
  next
    case (SeekTo wh)
    from seek_pcm[OF c' Cons.prems(1), of conv wh]
    obtain ok s1 where sk: "seek lib conv s wh = Some (ok, s1)"
      "wellformed s1" "channels s1 = channels s"
      by blast
    from Cons.IH[OF sk(2)] sk(3) Cons.prems(2)
    obtain rs s' where "calls lib conv s1 cs = Some (Inr (rs, s'))" "wellformed s'"
      "channels s' = ch"
      by auto
    with sk(1) SeekTo show ?thesis by simp
  qed
qed

subsection \<open>The sample count of a read\<close>

text \<open>
  Whatever the library answers: when \<open>readBuffer\<close> returns, the count it returns lies
  between the count on entry and \<open>numSamples\<close>, and the destination has grown by
  exactly the difference.
\<close>

lemma readLoop_bounds:
  assumes "readLoop lib s n k dst = Some y"
  shows "k \<le> n \<longrightarrow> (\<forall>cnt out s'. y = Inr (cnt, out, s') \<longrightarrow>
     k \<le> cnt \<and> cnt \<le> n \<and> int (length out) = int (length dst) + (cnt - k))"
  using assms
proof (induction lib s n k dst y rule: readLoop.raw_induct[rotated 1, consumes 1])
  case (1 rl lib s n k dst y)
  show ?case
  proof (cases "k < n \<and> pos s < bufferEnd s")
    case False
    with 1(2) have "y = Inr (k, dst, s)" by (simp split: if_splits)
    then show ?thesis by simp
  next
    case True
    define len where "len = min (n - k) (to_int32 (int (bufferEnd s) - int (pos s)))"
    define s1 where "s1 = s\<lparr>pos := pos s + nat len\<rparr>"
    define dst1 where "dst1 = dst @ take (nat len) (drop (pos s) (buffer s))"
    from 1(2) True
    have body: "(if len < 0 \<or> length (buffer s) < pos s + nat len then Some (Inl MemFault)
        else if bufferEnd s1 \<le> pos s1 then
          (case fillBuffer lib s1 of None \<Rightarrow> None
           | Some (ok, s2) \<Rightarrow>
               if \<not> ok then Some (Inr (k + len, dst1, s2))
               else rl lib s2 n (k + len) dst1)
        else rl lib s1 n (k + len) dst1) = Some y"
      unfolding len_def s1_def dst1_def Let_def by (simp only: if_True simp_thms)
    show ?thesis
    proof (cases "len < 0 \<or> length (buffer s) < pos s + nat len")
      case True
      from body[unfolded if_P[OF True]] have "y = Inl MemFault" by simp
      then show ?thesis by simp
    next
      case False
      note nofault = this
      then have len0: "0 \<le> len" and inside: "pos s + nat len \<le> length (buffer s)"
        by simp_all
      have kn: "k + len \<le> n" by (simp add: len_def)
      have ld: "int (length dst1) = int (length dst) + len"
        using len0 inside by (simp add: dst1_def)
      have fin: "k \<le> cnt \<and> cnt \<le> n \<and> int (length out) = int (length dst) + (cnt - k)"
        if "k + len \<le> cnt \<and> cnt \<le> n \<and> int (length out) = int (length dst1) + (cnt - (k + len))"
        for cnt and out :: "int16 list"
        using that len0 ld by simp
      show ?thesis
      proof (cases "bufferEnd s1 \<le> pos s1")
        case False
        from body[unfolded if_not_P[OF nofault] if_not_P[OF False]]
        have "rl lib s1 n (k + len) dst1 = Some y" .
        note ih = 1(1)[OF this, rule_format, OF kn]
        show ?thesis
        proof (intro impI allI)
          fix cnt out s'
          assume "y = Inr (cnt, out, s')"
          from fin[OF ih[OF this]]
          show "k \<le> cnt \<and> cnt \<le> n \<and> int (length out) = int (length dst) + (cnt - k)" .
        qed
      next
        case atend: True
        from body[unfolded if_not_P[OF nofault] if_P[OF atend]]
        have fbody: "(case fillBuffer lib s1 of None \<Rightarrow> None
             | Some (ok, s2) \<Rightarrow>
                 if \<not> ok then Some (Inr (k + len, dst1, s2))
                 else rl lib s2 n (k + len) dst1) = Some y" .
        then obtain ok s2 where fb: "fillBuffer lib s1 = Some (ok, s2)"
          by (cases "fillBuffer lib s1") auto
        show ?thesis
        proof (cases ok)
          case False
          with fbody fb have "y = Inr (k + len, dst1, s2)" by simp
          with kn ld len0 show ?thesis by simp
        next
          case True
          with fbody fb have "rl lib s2 n (k + len) dst1 = Some y" by simp
          note ih = 1(1)[OF this, rule_format, OF kn]
          show ?thesis
          proof (intro impI allI)
            fix cnt out s'
            assume "y = Inr (cnt, out, s')"
            from fin[OF ih[OF this]]
            show "k \<le> cnt \<and> cnt \<le> n \<and> int (length out) = int (length dst) + (cnt - k)" .
          qed
        qed
      qed
    qed
  qed
qed

lemma readBuffer_bounds:
  assumes "readBuffer lib s n = Some (Inr (cnt, dst, s'))" "0 \<le> n"
  shows "within n (Samples cnt dst)"
proof -
  from assms(1) have "readLoop lib s n 0 [] = Some (Inr (cnt, dst, s'))"
    by (simp add: readBuffer_def)
  from readLoop_bounds[OF this, rule_format, OF assms(2) refl]
  show ?thesis by (simp add: within_def)
qed

text \<open>
  C3. For a request of \<open>n \<ge> 0\<close> samples, whenever \<open>readBuffer\<close> returns, the count
  it returns is between 0 and \<open>n\<close> and is exactly the number of values copied to the
  destination. For a stream without errors, a valid object and requests
  \<open>ns\<close> that are not negative, the reads all return without a fault, each within
  these bounds; what they deliver, followed by what is still pending afterwards, is what
  was pending before; so once \<open>endOfData\<close> holds, the counts add up to the number of
  decodable samples, and \<open>endOfData\<close> does hold as soon as more was asked for than that.
\<close>

theorem readBuffer_counts:
  "(\<forall>cnt dst s'. 0 \<le> n \<and> readBuffer lib s n = Some (Inr (cnt, dst, s')) \<longrightarrow>
      within n (Samples cnt dst)) \<and>
   (pcm_codec lib (channels s) left \<and> valid left s \<and> list_all (\<lambda>n. 0 \<le> n) ns \<longrightarrow>
      (\<exists>rs s'. calls lib conv s (map Read ns) = Some (Inr (rs, s')) \<and>
         list_all2 within ns rs \<and>
         returned rs = int (length (delivered rs)) \<and>
         delivered rs @ pending left s' = pending left s \<and>
         (endOfData s' \<longrightarrow> returned rs = int (length (pending left s))) \<and>
         (int (length (pending left s)) < sum_list ns \<longrightarrow> endOfData s')))"
proof (intro conjI allI impI)
  fix cnt dst s'
  assume "0 \<le> n \<and> readBuffer lib s n = Some (Inr (cnt, dst, s'))"
  then show "within n (Samples cnt dst)"
    using readBuffer_bounds[of lib s n cnt dst s'] by simp
next
  assume a: "pcm_codec lib (channels s) left \<and> valid left s \<and> list_all (\<lambda>n. 0 \<le> n) ns"
  then have a1: "pcm_codec lib (channels s) left" and a2: "valid left s"
    and a3: "list_all (\<lambda>n. 0 \<le> n) ns"
    by simp_all
  from calls_Read_pcm[OF a1 a2 refl a3, of conv]
  obtain rs s' where r: "calls lib conv s (map Read ns) = Some (Inr (rs, s'))"
      "list_all2 within ns rs" "valid left s'"
      "delivered rs @ pending left s' = pending left s"
      "returned rs = int (length (delivered rs))"
      "int (length (pending left s)) < sum_list ns \<longrightarrow> endOfData s'"
    by blast
  have "endOfData s' \<longrightarrow> returned rs = int (length (pending left s))"
    using r(3,4,5) valid_endOfData_pending[of left s'] by auto
  with r show "\<exists>rs s'. calls lib conv s (map Read ns) = Some (Inr (rs, s')) \<and>
         list_all2 within ns rs \<and>
         returned rs = int (length (delivered rs)) \<and>
         delivered rs @ pending left s' = pending left s \<and>
         (endOfData s' \<longrightarrow> returned rs = int (length (pending left s))) \<and>
         (int (length (pending left s)) < sum_list ns \<longrightarrow> endOfData s')"
    by blast
qed

theorem readBuffer_counts_witness:
  "pcm_codec stereo_lib (channels demo_stream) stereo_left \<and>
   valid stereo_left demo_stream \<and> list_all (\<lambda>n. 0 \<le> n) [3, 5 :: int] \<and>
   calls stereo_lib ms_frames demo_stream (map Read [3, 5]) =
     Some (Inr ([Samples 3 [1, 2, 3], Samples 1 [4]],
                demo_stream\<lparr>pos := 0, bufferEnd := 0\<rparr>)) \<and>
   list_all2 within [3, 5] [Samples 3 [1, 2, 3], Samples 1 [4]] \<and>
   returned [Samples 3 [1, 2, 3], Samples 1 [4]] = 4 \<and>
   int (length (pending stereo_left demo_stream)) = 4 \<and>
   endOfData (demo_stream\<lparr>pos := 0, bufferEnd := 0\<rparr>) \<and>
   readBuffer stereo_lib demo_stream 3 = Some (Inr (3, [1, 2, 3], demo_stream\<lparr>pos := 3\<rparr>)) \<and>
   within 3 (Samples 3 [1, 2, 3])"
proof -
  have c: "pcm_codec stereo_lib (channels demo_stream) stereo_left"
    using stereo_lib_pcm by (simp add: demo_stream_def)
  have n: "list_all (\<lambda>n. 0 \<le> n) [3, 5 :: int]" by simp
  have run: "calls stereo_lib ms_frames demo_stream (map Read [3, 5]) =
     Some (Inr ([Samples 3 [1, 2, 3], Samples 1 [4]],
                demo_stream\<lparr>pos := 0, bufferEnd := 0\<rparr>))"
    using demo_reads[of ms_frames] by simp
  note inst = readBuffer_counts[of 3 stereo_lib demo_stream stereo_left "[3, 5]" ms_frames]
  from inst c valid_demo n run
  have r: "list_all2 within [3, 5] [Samples 3 [1, 2, 3], Samples 1 [4]]"
    "endOfData (demo_stream\<lparr>pos := 0, bufferEnd := 0\<rparr>) \<longrightarrow>
       returned [Samples 3 [1, 2, 3], Samples 1 [4]] =
       int (length (pending stereo_left demo_stream))"
    "int (length (pending stereo_left demo_stream)) < sum_list [3, 5] \<longrightarrow>
       endOfData (demo_stream\<lparr>pos := 0, bufferEnd := 0\<rparr>)"
    by auto
  from r(3) have e: "endOfData (demo_stream\<lparr>pos := 0, bufferEnd := 0\<rparr>)"
    by (simp add: pending_demo)
  with r(2) have "returned [Samples 3 [1, 2, 3], Samples 1 [4]] = 4"
    by (simp add: pending_demo)
  moreover from inst demo_read_3 have "within 3 (Samples 3 [1, 2, 3])" by simp
  ultimately show ?thesis
    using c valid_demo n run r(1) e demo_read_3 by (simp add: pending_demo)
qed

subsection \<open>Seeking\<close>

text \<open>
  C6. \<open>seek\<close> passes the frame index of the position at the rate 48000 to
  \<open>op_pcm_seek\<close>. When that fails, \<open>seek\<close> returns false with the cursor at
  \<open>_bufferEnd\<close>, so that \<open>endOfData\<close> holds, and leaves the buffer alone; when it
  succeeds, \<open>seek\<close> is the refill from the new position of the library, result and
  object.
\<close>

theorem seek_result:
  assumes "getRate s = 48000"
    and "op_pcm_seek lib (opfile s) (conv wh 48000) = (result, f')"
  shows "(result < 0 \<longrightarrow>
       (\<exists>s'. seek lib conv s wh = Some (False, s') \<and> pos s' = bufferEnd s' \<and> endOfData s' \<and>
          opfile s' = f' \<and> bufferEnd s' = bufferEnd s \<and> buffer s' = buffer s)) \<and>
     (0 \<le> result \<longrightarrow> seek lib conv s wh = fillBuffer lib (s\<lparr>opfile := f'\<rparr>))"
  using assms by (simp add: seek_def Let_def endOfData_def)

theorem seek_result_witness:
  "getRate demo_stream = 48000 \<and>
   op_pcm_seek stereo_lib (opfile demo_stream) (ms_frames one_second 48000) =
     (- 131, demo_file) \<and>
   (\<exists>s'. seek stereo_lib ms_frames demo_stream one_second = Some (False, s') \<and>
      pos s' = bufferEnd s' \<and> endOfData s') \<and>
   op_pcm_seek stereo_lib (opfile demo_stream) (ms_frames at_start 48000) =
     (0, demo_file\<lparr>cursor := 0\<rparr>) \<and>
   seek stereo_lib ms_frames demo_stream at_start =
     fillBuffer stereo_lib (demo_stream\<lparr>opfile := demo_file\<lparr>cursor := 0\<rparr>\<rparr>)"
proof -
  have r: "getRate demo_stream = 48000"
    by (simp add: getRate_def demo_stream_def)
  have far: "op_pcm_seek stereo_lib (opfile demo_stream) (ms_frames one_second 48000) =
     (- 131, demo_file)"
    by (simp add: stereo_lib_def stereo_seek_def demo_stream_def demo_file_def ms_frames_def
        one_second_def opusfile_codes_def)
  have near: "op_pcm_seek stereo_lib (opfile demo_stream) (ms_frames at_start 48000) =
     (0, demo_file\<lparr>cursor := 0\<rparr>)"
    by (simp add: stereo_lib_def stereo_seek_def demo_stream_def demo_file_def ms_frames_def
        at_start_def)
  from seek_result[where conv = ms_frames and wh = one_second, OF r far]
    seek_result[where conv = ms_frames and wh = at_start, OF r near] r far near
  show ?thesis by auto
qed

subsection \<open>The factory\<close>

lemma damaged_read_error:
  "\<exists>s'. fillBuffer damaged_lib (opened damaged_lib raw ([- 128], f)) = Some (False, s') \<and>
      opfile s' = ([], f)"
  unfolding fillBuffer_def
  by (rule fillLoop_error[where result = "- 128" and vs = "[]"])
    (simp_all add: bufferSize_def damaged_lib_def opusfile_codes_def)

text \<open>
  The test of the factory: \<open>makeOpusStream\<close> returns the null pointer exactly when
  the constructed object reports the end of the data, and the object otherwise; a stream
  it returns does not report the end of the data. It returns the null pointer when
  \<open>op_open_callbacks\<close> fails and when the first refill fails.
\<close>

theorem makeOpusStream_gate:
  "(\<forall>s. OpusStream_new lib io raw st = Some s \<longrightarrow>
      makeOpusStream lib io raw st = Some (if endOfData s then None else Some s)) \<and>
   (\<forall>d. makeOpusStream lib io raw st = Some (Some d) \<longrightarrow>
      OpusStream_new lib io raw st = Some d \<and> \<not> endOfData d) \<and>
   (\<forall>r f. op_open_callbacks lib st (g_stream_callbacks io) = (r, f) \<and> r < 0 \<longrightarrow>
      makeOpusStream lib io raw st = Some None) \<and>
   (\<forall>r f s2. op_open_callbacks lib st (g_stream_callbacks io) = (r, f) \<and> 0 \<le> r \<and>
      fillBuffer lib (opened lib raw f) = Some (False, s2) \<longrightarrow>
      makeOpusStream lib io raw st = Some None)"
proof -
  have live: "makeOpusStream lib io raw st = Some (if endOfData s then None else Some s)"
    if "OpusStream_new lib io raw st = Some s" for s
    using that by (simp add: makeOpusStream_def)
  have got: "OpusStream_new lib io raw st = Some d \<and> \<not> endOfData d"
    if "makeOpusStream lib io raw st = Some (Some d)" for d
    using that by (auto simp: makeOpusStream_def split: option.splits if_splits)
  have noopen: "makeOpusStream lib io raw st = Some None"
    if "op_open_callbacks lib st (g_stream_callbacks io) = (r, f) \<and> r < 0" for r f
  proof -
    from that obtain s where "OpusStream_new lib io raw st = Some s" "endOfData s"
      using OpusStream_new_failed[of lib st io r f raw] by auto
    then show ?thesis by (simp add: makeOpusStream_def)
  qed
  have nofill: "makeOpusStream lib io raw st = Some None"
    if a: "op_open_callbacks lib st (g_stream_callbacks io) = (r, f) \<and> 0 \<le> r \<and>
      fillBuffer lib (opened lib raw f) = Some (False, s2)" for r f s2
  proof -
    from a have "OpusStream_new lib io raw st = Some s2"
      using OpusStream_new_opened[of lib st io r f raw] by simp
    moreover from a fillBuffer_frame[of lib "opened lib raw f" False s2] have "endOfData s2"
      by (simp add: endOfData_def)
    ultimately show ?thesis by (simp add: makeOpusStream_def)
  qed
  from live got noopen nofill show ?thesis by blast
qed

theorem makeOpusStream_gate_witness:
  "makeOpusStream stereo_lib idle_io (raw0 \<lparr>frames = [], cursor = 0\<rparr>) [] = Some None \<and>
   makeOpusStream damaged_lib idle_io (raw0 ([], \<lparr>frames = [], cursor = 0\<rparr>))
     ([- 128], [(1, 2), (3, 4)]) = Some None \<and>
   makeOpusStream stereo_lib idle_io (raw0 \<lparr>frames = [], cursor = 0\<rparr>) [(1, 2), (3, 4)] =
     Some (Some demo_stream) \<and>
   \<not> endOfData demo_stream"
proof -
  let ?raw = "raw0 \<lparr>frames = [] :: (int16 \<times> int16) list, cursor = 0\<rparr>"
  let ?rawd = "raw0 ([] :: int list, \<lparr>frames = [] :: (int16 \<times> int16) list, cursor = 0\<rparr>)"
  have o1: "op_open_callbacks stereo_lib [] (g_stream_callbacks idle_io) =
      (- 132, \<lparr>frames = [], cursor = 0\<rparr>)"
    by (simp add: stereo_lib_def opusfile_codes_def)
  have o2: "op_open_callbacks damaged_lib ([- 128], [(1, 2), (3, 4)]) (g_stream_callbacks idle_io) =
      (0, ([- 128], \<lparr>frames = [(1, 2), (3, 4)], cursor = 0\<rparr>))"
    by (simp add: damaged_lib_def)
  obtain s2 where f2: "fillBuffer damaged_lib
      (opened damaged_lib ?rawd ([- 128], \<lparr>frames = [(1, 2), (3, 4)], cursor = 0\<rparr>)) = Some (False, s2)"
    using damaged_read_error by blast
  have e: "\<not> endOfData demo_stream"
    by (simp add: endOfData_def demo_stream_def)
  from makeOpusStream_gate[of stereo_lib idle_io ?raw "[]"] o1
  have "makeOpusStream stereo_lib idle_io ?raw [] = Some None" by simp
  moreover from makeOpusStream_gate[of damaged_lib idle_io ?rawd "([- 128], [(1, 2), (3, 4)])"] o2 f2
  have "makeOpusStream damaged_lib idle_io ?rawd ([- 128], [(1, 2), (3, 4)]) = Some None"
    by simp
  moreover from makeOpusStream_gate[of stereo_lib idle_io ?raw "[(1, 2), (3, 4)]"]
    demo_stream_opened e
  have "makeOpusStream stereo_lib idle_io ?raw [(1, 2), (3, 4)] = Some (Some demo_stream)"
    by simp
  ultimately show ?thesis using e by simp
qed

text \<open>
  That test does not keep every useless object from the caller. For the stereo source
  whose first call of \<open>op_read\<close> reports a hole, the object has its cursor at the
  start of the array and \<open>_bufferEnd\<close> 4294967290 values behind it, so it does not
  report the end of the data; and on such an object every read of a positive number of
  samples computes the length \<open>(int)4294967290 = -6\<close>.
\<close>

lemma hole_decoder:
  "\<exists>d. makeOpusStream damaged_lib idle_io (raw0 ([], \<lparr>frames = [], cursor = 0\<rparr>))
          ([- 3], [(1, 2), (3, 4)]) = Some (Some d) \<and>
     pos d = 0 \<and> bufferEnd d = 4294967290"
proof -
  define f where "f = \<lparr>frames = [(1, 2), (3, 4) :: int16 \<times> int16], cursor = 0\<rparr>"
  define raw where "raw = raw0 ([] :: int list, \<lparr>frames = [] :: (int16 \<times> int16) list, cursor = 0\<rparr>)"
  define s1 where "s1 = opened damaged_lib raw ([- 3], f)"
  define s2 where "s2 = warning (''Error reading from Opus stream: '' @
        opusError (codes damaged_lib) (OP_HOLE (codes damaged_lib)))
      (s1\<lparr>opfile := ([], f), buffer := write_at (buffer s1) 0 []\<rparr>)"
  define d where "d = measured damaged_lib (s2\<lparr>pos := 0, bufferEnd := 4294967290\<rparr>)"
  have op: "op_open_callbacks damaged_lib ([- 3], [(1, 2), (3, 4)]) (g_stream_callbacks idle_io) =
      (0, ([- 3], f))"
    by (simp add: damaged_lib_def f_def)
  have hole: "OP_HOLE (codes damaged_lib) = - 3"
    by (simp add: damaged_lib_def opusfile_codes_def)
  have ch: "channels s1 = 2"
    by (simp add: s1_def damaged_lib_def)
  have rd: "op_read damaged_lib (opfile s1) (int (bufferSize - 0)) = (OP_HOLE (codes damaged_lib), [], ([], f))"
    by (simp add: s1_def damaged_lib_def opusfile_codes_def)
  have "fillLoop damaged_lib s1 0 = fillLoop damaged_lib s2 (to_uint32 (int 0 + OP_HOLE (codes damaged_lib) * int (channels s1)))"
    unfolding s2_def by (rule fillLoop_hole[OF _ rd]) (simp_all add: bufferSize_def hole)
  also have "to_uint32 (int 0 + OP_HOLE (codes damaged_lib) * int (channels s1)) = 4294967290"
    by (simp add: hole ch to_uint32_def)
  also have "fillLoop damaged_lib s2 4294967290 = Some (True, s2\<lparr>pos := 0, bufferEnd := 4294967290\<rparr>)"
    by (rule fillLoop_done) (simp add: bufferSize_def)
  finally have fb: "fillBuffer damaged_lib s1 = Some (True, s2\<lparr>pos := 0, bufferEnd := 4294967290\<rparr>)"
    by (simp add: fillBuffer_def)
  from OpusStream_new_opened[OF op, of raw] fb
  have new: "OpusStream_new damaged_lib idle_io raw ([- 3], [(1, 2), (3, 4)]) = Some d"
    by (simp add: s1_def d_def)
  have pt: "op_pcm_total damaged_lib ([], f) = 2"
    by (simp add: damaged_lib_def f_def)
  have msg: "opusError (codes damaged_lib) (OP_HOLE (codes damaged_lib)) =
      ''There was a hole in the data and some samples may have been skipped''"
    by (simp add: damaged_lib_def opusError_def opusfile_codes_def)
  have fields: "opfile d = ([], f)" "pos d = 0" "bufferEnd d = 4294967290"
    "length (buffer d) = 11520"
    "console d = [''Error reading from Opus stream: '' @
       ''There was a hole in the data and some samples may have been skipped'']"
    by (simp_all add: d_def s2_def s1_def raw_def raw0_def bufferSize_def pt msg)
  have "makeOpusStream damaged_lib idle_io raw ([- 3], [(1, 2), (3, 4)]) = Some (Some d)"
    using new fields by (simp add: makeOpusStream_def endOfData_def)
  then show ?thesis
    using fields unfolding raw_def by blast
qed

lemma readBuffer_negative_length:
  assumes "pos s = 0" "bufferEnd s = 4294967290"
  shows "readBuffer lib s n = (if 0 < n then Some (Inl MemFault) else Some (Inr (0, [], s)))"
  unfolding readBuffer_def
  by (subst readLoop.simps) (simp add: assms to_int32_def Let_def)

text \<open>
  C5. A source for which the factory returns an object that can produce no audio: the
  stereo source of two frames whose first call of \<open>op_read\<close> reports a hole.
  \<open>makeOpusStream\<close> returns the object, since it does not report the end of the data,
  and every \<open>readBuffer\<close> on it that asks for at least one sample is a memory fault;
  a read that asks for none returns 0.
\<close>

theorem factory_returns_dead_decoder:
  "\<exists>d. makeOpusStream damaged_lib idle_io (raw0 ([], \<lparr>frames = [], cursor = 0\<rparr>))
          ([- 3], [(1, 2), (3, 4)]) = Some (Some d) \<and>
     \<not> endOfData d \<and>
     (\<forall>n. readBuffer damaged_lib d n =
        (if 0 < n then Some (Inl MemFault) else Some (Inr (0, [], d))))"
proof -
  from hole_decoder obtain d where d:
    "makeOpusStream damaged_lib idle_io (raw0 ([], \<lparr>frames = [], cursor = 0\<rparr>))
       ([- 3], [(1, 2), (3, 4)]) = Some (Some d)"
    "pos d = 0" "bufferEnd d = 4294967290"
    by blast
  from d(2,3) have "\<not> endOfData d" by (simp add: endOfData_def)
  moreover have "readBuffer damaged_lib d n =
      (if 0 < n then Some (Inl MemFault) else Some (Inr (0, [], d)))" for n
    by (rule readBuffer_negative_length[OF d(2,3)])
  ultimately show ?thesis using d(1) by blast
qed

subsection \<open>Channel count and rate\<close>

lemma OpusStream_new_metadata:
  assumes "op_open_callbacks lib st (g_stream_callbacks io) = (r, f)" "0 \<le> r"
    and "OpusStream_new lib io raw st = Some s"
  shows "rate s = 48000 \<and> channels s = nat (op_channel_count lib f mod 256)"
proof -
  from OpusStream_new_opened[OF assms(1,2), of raw] assms(3)
  obtain ok s2 where fb: "fillBuffer lib (opened lib raw f) = Some (ok, s2)"
    and s: "s = (if \<not> ok then s2 else measured lib s2)"
    by (auto split: option.splits if_splits)
  from fillBuffer_frame[OF fb] s show ?thesis by simp
qed

text \<open>
  C7. After a successful \<open>op_open_callbacks\<close> the rate of the constructed object is
  48000 and its channel count is the one the library reported at that moment (as a
  byte), whatever the rate of the source. No list of calls of \<open>readBuffer\<close> and
  \<open>seek\<close> changes either: \<open>getRate\<close> and \<open>isStereo\<close> answer afterwards what they
  answered before.
\<close>

theorem metadata_fixed:
  assumes "op_open_callbacks lib st (g_stream_callbacks io) = (r, f)" and "0 \<le> r"
    and "OpusStream_new lib io raw st = Some s"
    and "calls lib conv s cs = Some (Inr (rs, s'))"
  shows "getRate s = 48000 \<and> getRate s' = 48000 \<and>
     channels s = nat (op_channel_count lib f mod 256) \<and> channels s' = channels s \<and>
     isStereo s' = isStereo s"
  using OpusStream_new_metadata[OF assms(1,2,3)] calls_frame[OF assms(4)]
  by (simp add: getRate_def isStereo_def)

theorem metadata_fixed_witness:
  "op_open_callbacks stereo_lib [(1, 2), (3, 4)] (g_stream_callbacks idle_io) =
     (0, \<lparr>frames = [(1, 2), (3, 4)], cursor = 0\<rparr>) \<and>
   OpusStream_new stereo_lib idle_io (raw0 \<lparr>frames = [], cursor = 0\<rparr>) [(1, 2), (3, 4)] =
     Some demo_stream \<and>
   (\<exists>rs s'. calls stereo_lib ms_frames demo_stream
        [Read 3, SeekTo at_start, Read 10, SeekTo one_second, Read 1] = Some (Inr (rs, s')) \<and>
      getRate s' = 48000 \<and> isStereo s' \<and> channels s' = 2) \<and>
   getRate demo_stream = 48000 \<and> isStereo demo_stream"
proof -
  have op: "op_open_callbacks stereo_lib [(1, 2), (3, 4)] (g_stream_callbacks idle_io) =
     (0, \<lparr>frames = [(1, 2), (3, 4)], cursor = 0\<rparr>)"
    by (simp add: stereo_lib_def)
  have c: "pcm_codec stereo_lib 2 stereo_left" by (rule stereo_lib_pcm)
  have ch: "channels demo_stream = 2" by (simp add: demo_stream_def)
  from calls_pcm[OF c wellformed_demo ch, of ms_frames]
  obtain rs s' where r: "calls stereo_lib ms_frames demo_stream
        [Read 3, SeekTo at_start, Read 10, SeekTo one_second, Read 1] = Some (Inr (rs, s'))"
    by blast
  from metadata_fixed[OF op _ demo_stream_opened r] ch
  have "getRate s' = 48000 \<and> isStereo s' \<and> channels s' = 2 \<and> getRate demo_stream = 48000 \<and>
      isStereo demo_stream"
    by (simp add: isStereo_def)
  with op demo_stream_opened r show ?thesis by blast
qed

subsection \<open>The end of the data\<close>

lemma seek_failed:
  assumes "op_pcm_seek lib (opfile s) (conv wh (getRate s)) = (result, f')" "result < 0"
  shows "seek lib conv s wh =
    Some (False, (warning (''Error seeking in Opus stream: '' @ opusError (codes lib) result)
                    (s\<lparr>opfile := f'\<rparr>))\<lparr>pos := bufferEnd s\<rparr>)"
  using assms by (simp add: seek_def Let_def)

text \<open>
  C4. \<open>endOfData\<close> holds exactly when the cursor has reached \<open>_bufferEnd\<close>. A refill
  that fails leaves the cursor at \<open>_bufferEnd\<close>. Once \<open>endOfData\<close> holds it still
  holds after any list of calls in which no \<open>seek\<close> returned true. After a successful
  open of a stream without errors that has samples, \<open>endOfData\<close> does not hold.
\<close>

theorem endOfData_stable:
  "(endOfData s \<longleftrightarrow> bufferEnd s \<le> pos s) \<and>
   (\<forall>s'. fillBuffer lib s = Some (False, s') \<longrightarrow> pos s' = bufferEnd s' \<and> endOfData s') \<and>
   (\<forall>rs s'. endOfData s \<and> calls lib conv s cs = Some (Inr (rs, s')) \<and>
      Sought True \<notin> set rs \<longrightarrow> endOfData s') \<and>
   (\<forall>r f. op_open_callbacks lib st (g_stream_callbacks io) = (r, f) \<and> 0 \<le> r \<and>
      pcm_codec lib (nat (op_channel_count lib f mod 256)) left \<and>
      nat (op_channel_count lib f mod 256) dvd bufferSize \<and>
      length (buffer raw) = bufferSize \<and> left f \<noteq> [] \<longrightarrow>
      (\<exists>s0. OpusStream_new lib io raw st = Some s0 \<and> \<not> endOfData s0))"
proof -
  have poisoned: "pos s' = bufferEnd s' \<and> endOfData s'"
    if "fillBuffer lib s = Some (False, s')" for s'
    using fillBuffer_frame[OF that] by (simp add: endOfData_def)
  have stays: "endOfData s'"
    if "endOfData s \<and> calls lib conv s cs = Some (Inr (rs, s')) \<and> Sought True \<notin> set rs"
    for rs s'
    using that calls_stay_at_end[of lib conv s cs rs s'] by simp
  have fresh: "\<exists>s0. OpusStream_new lib io raw st = Some s0 \<and> \<not> endOfData s0"
    if a: "op_open_callbacks lib st (g_stream_callbacks io) = (r, f) \<and> 0 \<le> r \<and>
      pcm_codec lib (nat (op_channel_count lib f mod 256)) left \<and>
      nat (op_channel_count lib f mod 256) dvd bufferSize \<and>
      length (buffer raw) = bufferSize \<and> left f \<noteq> []" for r f
  proof -
    from a OpusStream_new_pcm[of lib st io r f left raw]
    obtain s0 where "OpusStream_new lib io raw st = Some s0" "endOfData s0 \<longleftrightarrow> left f = []"
      by auto
    with a show ?thesis by auto
  qed
  from poisoned stays fresh show ?thesis
    by (simp add: endOfData_def) blast
qed

theorem endOfData_stable_witness:
  "endOfData (demo_stream\<lparr>pos := 4\<rparr>) \<and>
   (\<exists>s'. calls stereo_lib ms_frames (demo_stream\<lparr>pos := 4\<rparr>)
        [Read 5, SeekTo one_second, Read 1] =
        Some (Inr ([Samples 0 [], Sought False, Samples 0 []], s')) \<and> endOfData s') \<and>
   (\<exists>s'. fillBuffer damaged_lib
        (opened damaged_lib (raw0 ([], \<lparr>frames = [], cursor = 0\<rparr>))
           ([- 128], \<lparr>frames = [(1, 2), (3, 4)], cursor = 0\<rparr>)) = Some (False, s') \<and>
      pos s' = bufferEnd s' \<and> endOfData s') \<and>
   (\<exists>s0. OpusStream_new stereo_lib idle_io (raw0 \<lparr>frames = [], cursor = 0\<rparr>)
        [(1, 2), (3, 4)] = Some s0 \<and> \<not> endOfData s0)"
proof -
  let ?spent = "demo_stream\<lparr>pos := 4\<rparr>"
  let ?raw = "raw0 \<lparr>frames = [] :: (int16 \<times> int16) list, cursor = 0\<rparr>"
  let ?rawd = "raw0 ([] :: int list, \<lparr>frames = [] :: (int16 \<times> int16) list, cursor = 0\<rparr>)"
  let ?f = "\<lparr>frames = [(1, 2), (3, 4) :: int16 \<times> int16], cursor = 0\<rparr>"
  define sx where "sx = (warning (''Error seeking in Opus stream: '' @
      opusError (codes stereo_lib) (- 131)) (?spent\<lparr>opfile := demo_file\<rparr>))\<lparr>pos := bufferEnd ?spent\<rparr>"
  have e: "endOfData ?spent"
    by (simp add: endOfData_def demo_stream_def)
  have ex: "endOfData sx"
    by (simp add: endOfData_def sx_def)
  have far: "op_pcm_seek stereo_lib (opfile ?spent) (ms_frames one_second (getRate ?spent)) =
     (- 131, demo_file)"
    by (simp add: stereo_lib_def stereo_seek_def demo_stream_def demo_file_def ms_frames_def
        one_second_def opusfile_codes_def getRate_def)
  have sk: "seek stereo_lib ms_frames ?spent one_second = Some (False, sx)"
    unfolding sx_def
    by (rule seek_failed[where conv = ms_frames and wh = one_second, OF far]) simp
  have run: "calls stereo_lib ms_frames ?spent [Read 5, SeekTo one_second, Read 1] =
      Some (Inr ([Samples 0 [], Sought False, Samples 0 []], sx))"
    by (simp add: readBuffer_at_end[OF e] readBuffer_at_end[OF ex] sk)
  from endOfData_stable[where s = ?spent and lib = stereo_lib and conv = ms_frames
      and cs = "[Read 5, SeekTo one_second, Read 1]"] e run
  have c1: "endOfData sx" by simp
  obtain s2 where f2: "fillBuffer damaged_lib (opened damaged_lib ?rawd ([- 128], ?f)) =
      Some (False, s2)"
    using damaged_read_error by blast
  from endOfData_stable[where lib = damaged_lib
      and s = "opened damaged_lib ?rawd ([- 128], ?f)"] f2
  have c2: "pos s2 = bufferEnd s2 \<and> endOfData s2" by simp
  have op: "op_open_callbacks stereo_lib [(1, 2), (3, 4)] (g_stream_callbacks idle_io) = (0, ?f)"
    by (simp add: stereo_lib_def)
  have cc: "nat (op_channel_count stereo_lib ?f mod 256) = 2"
    by (simp add: stereo_lib_def)
  have hyp: "pcm_codec stereo_lib (nat (op_channel_count stereo_lib ?f mod 256)) stereo_left"
    "nat (op_channel_count stereo_lib ?f mod 256) dvd bufferSize"
    "length (buffer ?raw) = bufferSize" "stereo_left ?f \<noteq> []"
    by (simp_all add: cc stereo_lib_pcm bufferSize_def raw0_def stereo_left_def)
  from endOfData_stable[where lib = stereo_lib and st = "[(1, 2), (3, 4)]" and io = idle_io
      and left = stereo_left and raw = ?raw] op hyp
  have c3: "\<exists>s0. OpusStream_new stereo_lib idle_io ?raw [(1, 2), (3, 4)] = Some s0 \<and>
      \<not> endOfData s0"
    by blast
  from e run c1 f2 c2 c3 show ?thesis by blast
qed

end
